theory Spec2Isabelle
  imports Complex_Main
begin

section \<open>The device manager of Clementine (src/devices/devicemanager.cpp)\<close>

text \<open>
  The registry of removable devices is embedded as state-passing functions over a record
  \<open>DeviceManager\<close>. Every member function of the source is a HOL function of the same
  name that takes the state and returns the new one. Signals emitted by the source are
  appended to the field \<open>signals\<close>, calls with an effect on an external collaborator
  (the device database, a lister, a device class, the warning log) are appended to the
  field \<open>calls\<close>. An access the source performs outside a list's range, or through a
  null pointer, has no defined behaviour in C++; the model returns \<open>None\<close> there.
  Output to \<open>qDebug\<close> is left out. The members of the source end in an underscore, which
  a HOL name cannot: the fields drop it (\<open>size_\<close> is \<open>size_bytes\<close>).
\<close>

subsection \<open>Values of the framework\<close>

text \<open>
  A \<open>QUrl\<close> is kept as its scheme and its path. \<open>QUrl()\<close> is the empty URL.
\<close>

record QUrl =
  url_scheme :: string
  url_path :: string

definition QUrl_empty :: QUrl where
  "QUrl_empty = \<lparr>url_scheme = [], url_path = []\<rparr>"

definition isEmpty :: "QUrl \<Rightarrow> bool" where
  "isEmpty u = (url_scheme u = [] \<and> url_path u = [])"

definition toString :: "QUrl \<Rightarrow> string" where
  "toString u = (if url_scheme u = [] then url_path u else url_scheme u @ ''://'' @ url_path u)"

text \<open>
  A \<open>QModelIndex\<close> of the list model is invalid (\<open>None\<close>) or a row and a column.
\<close>

type_synonym QModelIndex = "(int \<times> int) option"

text \<open>\<open>QStringList::join\<close> and \<open>QString::split\<close> (empty parts are kept).\<close>

fun join :: "string \<Rightarrow> string list \<Rightarrow> string" where
  "join sep [] = []"
| "join sep [x] = x"
| "join sep (x # y # ys) = x @ sep @ join sep (y # ys)"

fun split :: "char \<Rightarrow> string \<Rightarrow> string list" where
  "split c [] = [[]]"
| "split c (x # xs) =
     (if x = c then [] # split c xs
      else (case split c xs of [] \<Rightarrow> [[x]] | p # ps \<Rightarrow> (x # p) # ps))"

text \<open>\<open>QString::toLower\<close> on the letters A to Z, and \<open>QString::contains\<close>.\<close>

definition lower_char :: "char \<Rightarrow> char" where
  "lower_char c =
     (if 65 \<le> (of_char c :: nat) \<and> (of_char c :: nat) \<le> 90
      then char_of ((of_char c :: nat) + 32) else c)"

definition toLower :: "string \<Rightarrow> string" where
  "toLower s = map lower_char s"

fun startsWith :: "string \<Rightarrow> string \<Rightarrow> bool" where
  "startsWith s [] = True"
| "startsWith [] (p # ps) = False"
| "startsWith (x # xs) (p # ps) = (x = p \<and> startsWith xs ps)"

fun contains :: "string \<Rightarrow> string \<Rightarrow> bool" where
  "contains [] sub = (sub = [])"
| "contains (x # xs) sub = (startsWith (x # xs) sub \<or> contains xs sub)"

text \<open>\<open>QList::removeAt\<close> inside the list's range.\<close>

definition removeAt :: "nat \<Rightarrow> 'a list \<Rightarrow> 'a list" where
  "removeAt i xs = take i xs @ drop (Suc i) xs"

subsection \<open>Data model\<close>

text \<open>
  A lister (\<open>DeviceLister*\<close>) and a connected device (\<open>ConnectedDevice*\<close>) are
  identified by a natural number, the null pointer is \<open>None\<close>.
\<close>

record Backend =
  lister :: "nat option"
  unique_id :: string

text \<open>
  The connected device remembers its identity and the arguments of its constructor;
  \<open>cd_lister\<close> is what \<open>lister()\<close> returns and \<open>cd_url\<close> what \<open>url()\<close> returns.
\<close>

record ConnectedDevice =
  cd_ptr :: nat
  cd_url :: QUrl
  cd_lister :: "nat option"
  cd_unique_id :: string
  cd_database_id :: int
  cd_first_time :: bool

record DeviceInfo =
  database_id :: int
  friendly_name :: string
  size_bytes :: nat
  icon_name :: string
  icon :: "string option"
  backends :: "Backend list"
  device :: "ConnectedDevice option"
  task_percentage :: int

text \<open>\<open>DeviceDatabaseBackend::Device\<close>, the persisted form of a record.\<close>

record Device =
  db_friendly_name :: string
  db_size :: nat
  db_id :: int
  db_icon_name :: string
  db_unique_id :: string

record Task =
  task_id :: int
  progress :: int
  progress_max :: int

datatype signal =
    dataChanged QModelIndex QModelIndex
  | rowsAboutToBeInserted int int
  | rowsInserted int int
  | rowsAboutToBeRemoved int int
  | rowsRemoved int int
  | DeviceConnected int
  | DeviceDisconnected int
  | Error string

datatype call =
    Call_AddDevice Device
  | Call_RemoveDevice int
  | Call_SetDeviceIdentity int string string
  | Call_UnmountDevice nat string
  | Call_newInstance nat QUrl "nat option" string int bool
  | Call_qWarning string

text \<open>
  The collaborators the source only calls: the listers' queries, the database's
  \<open>AddDevice\<close>, the constructors of the device classes (\<open>QMetaObject::newInstance\<close>,
  which yields an object or null), the icon loader (whether an icon of that name exists)
  and \<open>Utilities::PrettySize\<close>. They are parameters of the model.
\<close>

record Env =
  priority :: "nat \<Rightarrow> int"
  MakeDeviceUrls :: "nat \<Rightarrow> string \<Rightarrow> QUrl list"
  MakeFriendlyName :: "nat \<Rightarrow> string \<Rightarrow> string"
  DeviceCapacity :: "nat \<Rightarrow> string \<Rightarrow> nat"
  DeviceIcons :: "nat \<Rightarrow> string \<Rightarrow> string list"
  DeviceFreeSpace :: "nat \<Rightarrow> string \<Rightarrow> nat"
  AddDevice :: "Device \<Rightarrow> int"
  newInstance :: "nat \<Rightarrow> QUrl \<Rightarrow> nat option \<Rightarrow> string \<Rightarrow> int \<Rightarrow> bool \<Rightarrow> nat option"
  IconLoader_Load :: "string \<Rightarrow> bool"
  PrettySize :: "nat \<Rightarrow> string"

text \<open>
  The manager. \<open>device_classes\<close> maps a URL scheme to a device class,
  \<open>active_tasks\<close> is the \<open>QMap\<close> from task ids to persistent indexes (kept in
  ascending key order), \<open>persistent\<close> holds the persistent indexes other objects keep
  on the model.
\<close>

record DeviceManager =
  devices :: "DeviceInfo list"
  device_classes :: "string \<rightharpoonup> nat"
  active_tasks :: "(int \<times> QModelIndex) list"
  persistent :: "QModelIndex list"
  signals :: "signal list"
  calls :: "call list"

definition emit :: "signal \<Rightarrow> DeviceManager \<Rightarrow> DeviceManager" where
  "emit sg s = s\<lparr>signals := signals s @ [sg]\<rparr>"

definition call_ext :: "call \<Rightarrow> DeviceManager \<Rightarrow> DeviceManager" where
  "call_ext c s = s\<lparr>calls := calls s @ [c]\<rparr>"

definition rowCount :: "DeviceManager \<Rightarrow> int" where
  "rowCount s = int (length (devices s))"

text \<open>\<open>QAbstractListModel::index\<close>: a valid index only inside the model, column 0.\<close>

definition index :: "DeviceManager \<Rightarrow> int \<Rightarrow> int \<Rightarrow> QModelIndex" where
  "index s row column =
     (if 0 \<le> row \<and> row < rowCount s \<and> column = 0 then Some (row, column) else None)"

text \<open>\<open>devices[row]\<close>: defined inside the range only.\<close>

definition device_at :: "DeviceManager \<Rightarrow> int \<Rightarrow> DeviceInfo option" where
  "device_at s row =
     (if 0 \<le> row \<and> row < rowCount s then Some (devices s ! nat row) else None)"

definition set_device :: "int \<Rightarrow> DeviceInfo \<Rightarrow> DeviceManager \<Rightarrow> DeviceManager" where
  "set_device row info s = s\<lparr>devices := (devices s)[nat row := info]\<rparr>"

subsection \<open>DeviceInfo\<close>

definition DeviceInfo_new :: DeviceInfo where
  "DeviceInfo_new =
     \<lparr>database_id = - 1, friendly_name = [], size_bytes = 0, icon_name = [], icon = None,
      backends = [], device = None, task_percentage = - 1\<rparr>"

definition SaveToDb :: "DeviceInfo \<Rightarrow> Device" where
  "SaveToDb info =
     \<lparr>db_friendly_name = friendly_name info, db_size = size_bytes info,
      db_id = database_id info, db_icon_name = icon_name info,
      db_unique_id = join '','' (map unique_id (backends info))\<rparr>"

definition Load :: "Env \<Rightarrow> string \<Rightarrow> string option" where
  "Load env name = (if IconLoader_Load env name then Some name else None)"

fun LoadIcon_exact :: "Env \<Rightarrow> string list \<Rightarrow> string option" where
  "LoadIcon_exact env [] = None"
| "LoadIcon_exact env (name # names) =
     (if IconLoader_Load env name then Some name else LoadIcon_exact env names)"

definition LoadIcon :: "Env \<Rightarrow> string list \<Rightarrow> string \<Rightarrow> DeviceInfo \<Rightarrow> DeviceInfo" where
  "LoadIcon env icons name_hint info =
     (if icons = [] then
        info\<lparr>icon_name := ''drive-removable-media-usb-pendrive'',
             icon := Load env ''drive-removable-media-usb-pendrive''\<rparr>
      else (case LoadIcon_exact env icons of
          Some name \<Rightarrow> info\<lparr>icon_name := name, icon := Some name\<rparr>
        | None \<Rightarrow>
            (let hint = toLower (hd icons @ name_hint);
                 nm = (if contains hint ''phone'' then ''phone''
                       else if contains hint ''ipod'' \<or> contains hint ''apple''
                       then ''multimedia-player-ipod-standard-monochrome''
                       else ''drive-removable-media-usb-pendrive'')
             in info\<lparr>icon_name := nm, icon := Load env nm\<rparr>)))"

definition InitFromDb :: "Env \<Rightarrow> Device \<Rightarrow> DeviceInfo \<Rightarrow> DeviceInfo" where
  "InitFromDb env dev info =
     (let info1 = info\<lparr>database_id := db_id dev, friendly_name := db_friendly_name dev,
                       size_bytes := db_size dev\<rparr>;
          info2 = LoadIcon env (split CHR '','' (db_icon_name dev)) (friendly_name info1) info1
      in info2\<lparr>backends := backends info2 @
                  map (\<lambda>i. \<lparr>lister = None, unique_id = i\<rparr>) (split CHR '','' (db_unique_id dev))\<rparr>)"

text \<open>
  \<open>BestBackend\<close>: the loop keeps the first live binding of the highest priority above
  -1; without one, the first binding; null when there is no binding at all.
\<close>

fun BestBackend_loop :: "Env \<Rightarrow> Backend list \<Rightarrow> int \<Rightarrow> Backend option \<Rightarrow> Backend option" where
  "BestBackend_loop env [] best_priority ret = ret"
| "BestBackend_loop env (b # bs) best_priority ret =
     (case lister b of
        Some l \<Rightarrow>
          (if priority env l > best_priority
           then BestBackend_loop env bs (priority env l) (Some b)
           else BestBackend_loop env bs best_priority ret)
      | None \<Rightarrow> BestBackend_loop env bs best_priority ret)"

definition BestBackend :: "Env \<Rightarrow> DeviceInfo \<Rightarrow> Backend option" where
  "BestBackend env info =
     (let ret = BestBackend_loop env (backends info) (- 1) None
      in if ret = None \<and> backends info \<noteq> [] then Some (hd (backends info)) else ret)"

subsection \<open>Construction and lookup\<close>

text \<open>
  The constructor loads every persisted device. The device classes registered by
  \<open>AddDeviceClass\<close> (a template of the header) are given as the map \<open>classes\<close>.
\<close>

definition DeviceManager_new :: "Env \<Rightarrow> Device list \<Rightarrow> (string \<rightharpoonup> nat) \<Rightarrow> DeviceManager" where
  "DeviceManager_new env db classes =
     \<lparr>devices = map (\<lambda>dev. InitFromDb env dev DeviceInfo_new) db, device_classes = classes,
      active_tasks = [], persistent = [], signals = [], calls = []\<rparr>"

fun FindDeviceById_loop :: "DeviceInfo list \<Rightarrow> string \<Rightarrow> int \<Rightarrow> int" where
  "FindDeviceById_loop [] ident i = - 1"
| "FindDeviceById_loop (d # ds) ident i =
     (if \<exists>b \<in> set (backends d). unique_id b = ident then i
      else FindDeviceById_loop ds ident (i + 1))"

definition FindDeviceById :: "DeviceManager \<Rightarrow> string \<Rightarrow> int" where
  "FindDeviceById s ident = FindDeviceById_loop (devices s) ident 0"

definition backend_has_url :: "Env \<Rightarrow> QUrl list \<Rightarrow> Backend \<Rightarrow> bool" where
  "backend_has_url env urls b =
     (case lister b of
        None \<Rightarrow> False
      | Some l \<Rightarrow> \<exists>url \<in> set (MakeDeviceUrls env l (unique_id b)). url \<in> set urls)"

fun FindDeviceByUrl_loop :: "Env \<Rightarrow> DeviceInfo list \<Rightarrow> QUrl list \<Rightarrow> int \<Rightarrow> int" where
  "FindDeviceByUrl_loop env [] urls i = - 1"
| "FindDeviceByUrl_loop env (d # ds) urls i =
     (if \<exists>b \<in> set (backends d). backend_has_url env urls b then i
      else FindDeviceByUrl_loop env ds urls (i + 1))"

definition FindDeviceByUrl :: "Env \<Rightarrow> DeviceManager \<Rightarrow> QUrl list \<Rightarrow> int" where
  "FindDeviceByUrl env s urls =
     (if urls = [] then - 1 else FindDeviceByUrl_loop env (devices s) urls 0)"

subsection \<open>Events of the listers\<close>

text \<open>
  The loops over a record's bindings that stop at the first binding of the given id:
  one assigns its lister, the other removes it.
\<close>

fun set_lister :: "string \<Rightarrow> nat option \<Rightarrow> Backend list \<Rightarrow> Backend list" where
  "set_lister ident l [] = []"
| "set_lister ident l (b # bs) =
     (if unique_id b = ident then b\<lparr>lister := l\<rparr> # bs else b # set_lister ident l bs)"

fun remove_backend :: "string \<Rightarrow> Backend list \<Rightarrow> Backend list" where
  "remove_backend ident [] = []"
| "remove_backend ident (b # bs) =
     (if unique_id b = ident then bs else b # remove_backend ident bs)"

text \<open>
  \<open>sender\<close> is the lister that sent the signal (\<open>qobject_cast\<close> of \<open>sender()\<close>),
  null when the slot is not called from a lister's signal.
\<close>

definition PhysicalDeviceAdded ::
  "Env \<Rightarrow> nat option \<Rightarrow> string \<Rightarrow> DeviceManager \<Rightarrow> DeviceManager option" where
  "PhysicalDeviceAdded env sender ident s =
     (let i = FindDeviceById s ident in
      if i \<noteq> - 1 then
        (case device_at s i of
           None \<Rightarrow> None
         | Some info \<Rightarrow>
             (let s1 = set_device i (info\<lparr>backends := set_lister ident sender (backends info)\<rparr>) s
              in Some (emit (dataChanged (index s1 i 0) (index s1 i 0)) s1)))
      else
        (case sender of
           None \<Rightarrow> None
         | Some l \<Rightarrow>
             (let j = FindDeviceByUrl env s (MakeDeviceUrls env l ident) in
              if j \<noteq> - 1 then
                (case device_at s j of
                   None \<Rightarrow> None
                 | Some info \<Rightarrow>
                     (let info1 = info\<lparr>backends := backends info @ [\<lparr>lister = Some l, unique_id = ident\<rparr>]\<rparr>;
                          fresh = (let info2 = info1\<lparr>friendly_name := MakeFriendlyName env l ident,
                                                    size_bytes := DeviceCapacity env l ident\<rparr>
                                   in LoadIcon env (DeviceIcons env l ident) (friendly_name info2) info2);
                          changed = (\<lambda>info3. let s1 = set_device j info3 s
                                     in Some (emit (dataChanged (index s1 j 0) (index s1 j 0)) s1))
                      in if database_id info1 = - 1 then
                           (case BestBackend env info1 of
                              None \<Rightarrow> None
                            | Some bb \<Rightarrow> changed (if lister bb = Some l then fresh else info1))
                         else changed info1))
              else
                (let info1 = DeviceInfo_new\<lparr>backends := [\<lparr>lister = Some l, unique_id = ident\<rparr>],
                                            friendly_name := MakeFriendlyName env l ident,
                                            size_bytes := DeviceCapacity env l ident\<rparr>;
                     info2 = LoadIcon env (DeviceIcons env l ident) (friendly_name info1) info1;
                     n = rowCount s;
                     s1 = emit (rowsAboutToBeInserted n n) s;
                     s2 = s1\<lparr>devices := devices s1 @ [info2]\<rparr>
                 in Some (emit (rowsInserted n n) s2)))))"

text \<open>
  Removing row \<open>i\<close> from the model, as \<open>PhysicalDeviceRemoved\<close> and \<open>Forget\<close> both
  do: \<open>beginRemoveRows\<close>, \<open>devices_.removeAt(i)\<close>, the loop over
  \<open>persistentIndexList()\<close> that retargets every persistent index with
  \<open>changePersistentIndex\<close>, and \<open>endRemoveRows\<close>. The persistent indexes of the model
  are those other objects hold and those stored in \<open>active_tasks_\<close>.

  The two calls of the framework keep the persistent indexes up to date themselves.
  \<open>beginRemoveRows(parent, first, last)\<close> sends \<open>rowsAboutToBeRemoved\<close> and notes which
  persistent indexes are on a row after \<open>last\<close> and which are on the rows \<open>first\<close> to
  \<open>last\<close>. \<open>endRemoveRows\<close> gives each index of the first kind the row it has at that
  moment less the number of rows removed, makes each index of the second kind invalid, and
  sends \<open>rowsRemoved\<close>. In \<open>endRemoveRows_index\<close>, \<open>noted\<close> is the value the persistent
  index had at \<open>beginRemoveRows\<close> and \<open>idx\<close> the value it has at \<open>endRemoveRows\<close>.
\<close>

definition changePersistentIndex :: "DeviceManager \<Rightarrow> int \<Rightarrow> QModelIndex \<Rightarrow> QModelIndex" where
  "changePersistentIndex s i idx =
     (case idx of
        None \<Rightarrow> None
      | Some (r, c) \<Rightarrow>
          if r = i then None
          else if r > i then index s (r - 1) c
          else Some (r, c))"

definition endRemoveRows_index ::
  "DeviceManager \<Rightarrow> int \<Rightarrow> int \<Rightarrow> QModelIndex \<Rightarrow> QModelIndex \<Rightarrow> QModelIndex" where
  "endRemoveRows_index s first_row last_row noted idx =
     (case noted of
        None \<Rightarrow> idx
      | Some (r, c) \<Rightarrow>
          if r > last_row then
            (case idx of
               None \<Rightarrow> None
             | Some (r', c') \<Rightarrow> index s (r' - (last_row - first_row + 1)) c')
          else if first_row \<le> r then None
          else idx)"

definition remove_row :: "int \<Rightarrow> DeviceManager \<Rightarrow> DeviceManager" where
  "remove_row i s =
     (let s1 = emit (rowsAboutToBeRemoved i i) s;
          s2 = s1\<lparr>devices := removeAt (nat i) (devices s1)\<rparr>;
          s3 = s2\<lparr>persistent := map (changePersistentIndex s2 i) (persistent s2),
                  active_tasks := map (\<lambda>(k, idx). (k, changePersistentIndex s2 i idx)) (active_tasks s2)\<rparr>;
          s4 = s3\<lparr>persistent := map2 (endRemoveRows_index s3 i i) (persistent s1) (persistent s3),
                  active_tasks := map2 (\<lambda>(k, noted) (k', idx). (k', endRemoveRows_index s3 i i noted idx))
                                    (active_tasks s1) (active_tasks s3)\<rparr>
      in emit (rowsRemoved i i) s4)"

definition PhysicalDeviceRemoved ::
  "nat option \<Rightarrow> string \<Rightarrow> DeviceManager \<Rightarrow> DeviceManager option" where
  "PhysicalDeviceRemoved sender ident s =
     (let i = FindDeviceById s ident in
      if i = - 1 then Some s
      else
        (case device_at s i of
           None \<Rightarrow> None
         | Some info \<Rightarrow>
             if database_id info \<noteq> - 1 then
               (let info1 = info\<lparr>backends := set_lister ident None (backends info)\<rparr>;
                    info2 = (case device info1 of
                               Some d \<Rightarrow> if cd_lister d = sender then info1\<lparr>device := None\<rparr> else info1
                             | None \<Rightarrow> info1);
                    s1 = set_device i info2 s;
                    s2 = emit (dataChanged (index s1 i 0) (index s1 i 0)) s1
                in Some (if device info2 = None then emit (DeviceDisconnected i) s2 else s2))
             else
               (let info1 = info\<lparr>backends := remove_backend ident (backends info)\<rparr>;
                    s1 = set_device i info1 s
                in Some (if backends info1 = [] then remove_row i s1 else s1))))"

definition PhysicalDeviceChanged ::
  "nat option \<Rightarrow> string \<Rightarrow> DeviceManager \<Rightarrow> DeviceManager option" where
  "PhysicalDeviceChanged sender ident s =
     (let i = FindDeviceById s ident in if i = - 1 then Some s else Some s)"

subsection \<open>Connecting and disconnecting\<close>

text \<open>
  The loop of \<open>Connect\<close> over the candidate URLs: \<open>device_url\<close> is assigned at every
  URL whose scheme has a device class, and the loop runs to the end of the list.
\<close>

fun pick_device_url :: "(string \<rightharpoonup> nat) \<Rightarrow> QUrl list \<Rightarrow> QUrl \<Rightarrow> QUrl" where
  "pick_device_url classes [] device_url = device_url"
| "pick_device_url classes (url # urls) device_url =
     pick_device_url classes urls
       (if classes (url_scheme url) \<noteq> None then url else device_url)"

definition unsupported_message :: "QUrl list \<Rightarrow> string" where
  "unsupported_message urls =
     ''This type of device is not supported: '' @ join '', '' (map toString urls)"

text \<open>
  The second half of \<open>Connect\<close>, from the resolution of the URLs on. \<open>value()\<close> of a
  scheme without a device class is an empty meta object, which constructs nothing.
\<close>

definition Connect_open ::
  "Env \<Rightarrow> int \<Rightarrow> bool \<Rightarrow> DeviceManager \<Rightarrow> (ConnectedDevice option \<times> DeviceManager) option" where
  "Connect_open env row first_time s =
     (case device_at s row of
        None \<Rightarrow> None
      | Some info \<Rightarrow>
     (case BestBackend env info of
        None \<Rightarrow> None
      | Some bb \<Rightarrow>
     (case lister bb of
        None \<Rightarrow> None
      | Some l \<Rightarrow>
          (let urls = MakeDeviceUrls env l (unique_id bb) in
           if urls = [] then Some (None, s)
           else
             (let device_url = pick_device_url (device_classes s) urls QUrl_empty in
              if isEmpty device_url then Some (None, emit (Error (unsupported_message urls)) s)
              else
                (let instance =
                       (case device_classes s (url_scheme device_url) of
                          None \<Rightarrow> None
                        | Some meta_object \<Rightarrow>
                            newInstance env meta_object device_url (lister bb) (unique_id bb)
                              (database_id info) first_time);
                     s1 = (case device_classes s (url_scheme device_url) of
                             None \<Rightarrow> s
                           | Some meta_object \<Rightarrow>
                               call_ext (Call_newInstance meta_object device_url (lister bb)
                                 (unique_id bb) (database_id info) first_time) s)
                 in case instance of
                      None \<Rightarrow>
                        Some (None,
                          emit (DeviceConnected row)
                            (call_ext (Call_qWarning (''Could not create device for '' @ toString device_url)) s1))
                    | Some p \<Rightarrow>
                        (let ret = \<lparr>cd_ptr = p, cd_url = device_url, cd_lister = lister bb,
                                    cd_unique_id = unique_id bb, cd_database_id = database_id info,
                                    cd_first_time = first_time\<rparr>;
                             s2 = set_device row (info\<lparr>device := Some ret\<rparr>) s1;
                             s3 = emit (dataChanged (index s2 row 0) (index s2 row 0)) s2
                         in Some (Some ret, emit (DeviceConnected row) s3))))))))"

definition Connect ::
  "Env \<Rightarrow> int \<Rightarrow> DeviceManager \<Rightarrow> (ConnectedDevice option \<times> DeviceManager) option" where
  "Connect env row s =
     (case device_at s row of
        None \<Rightarrow> None
      | Some info \<Rightarrow>
     (case device info of
        Some d \<Rightarrow> Some (Some d, s)
      | None \<Rightarrow>
     (case BestBackend env info of
        None \<Rightarrow> None
      | Some bb \<Rightarrow>
          if lister bb = None then Some (None, s)
          else
            (let first_time = (database_id info = - 1);
                 s1 = (if first_time
                       then set_device row (info\<lparr>database_id := AddDevice env (SaveToDb info)\<rparr>)
                              (call_ext (Call_AddDevice (SaveToDb info)) s)
                       else s)
             in Connect_open env row first_time s1))))"

definition GetConnectedDevice :: "DeviceManager \<Rightarrow> int \<Rightarrow> ConnectedDevice option option" where
  "GetConnectedDevice s row = map_option device (device_at s row)"


definition GetLister :: "Env \<Rightarrow> DeviceManager \<Rightarrow> int \<Rightarrow> nat option option" where
  "GetLister env s row =
     (case device_at s row of
        None \<Rightarrow> None
      | Some info \<Rightarrow> map_option lister (BestBackend env info))"

definition Disconnect :: "int \<Rightarrow> DeviceManager \<Rightarrow> DeviceManager option" where
  "Disconnect row s =
     (case device_at s row of
        None \<Rightarrow> None
      | Some info \<Rightarrow>
          if device info = None then Some s
          else
            (let s1 = set_device row (info\<lparr>device := None\<rparr>) s;
                 s2 = emit (DeviceDisconnected row) s1
             in Some (emit (dataChanged (index s2 row 0) (index s2 row 0)) s2)))"

definition Forget :: "Env \<Rightarrow> int \<Rightarrow> DeviceManager \<Rightarrow> DeviceManager option" where
  "Forget env row s =
     (case device_at s row of
        None \<Rightarrow> None
      | Some info0 \<Rightarrow>
          if database_id info0 = - 1 then Some s
          else
     (case (if device info0 \<noteq> None then Disconnect row s else Some s) of
        None \<Rightarrow> None
      | Some s1 \<Rightarrow>
     (case device_at s1 row of
        None \<Rightarrow> None
      | Some info1 \<Rightarrow>
          (let s2 = call_ext (Call_RemoveDevice (database_id info1)) s1;
               info2 = info1\<lparr>database_id := - 1\<rparr>;
               s3 = set_device row info2 s2
           in case BestBackend env info2 of
                None \<Rightarrow> None
              | Some bb \<Rightarrow>
                  (case lister bb of
                     None \<Rightarrow> Some (remove_row row s3)
                   | Some l \<Rightarrow>
                       (let ident = unique_id bb;
                            info3 = info2\<lparr>friendly_name := MakeFriendlyName env l ident\<rparr>;
                            info4 = LoadIcon env (DeviceIcons env l ident) (friendly_name info3) info3;
                            s4 = set_device row info4 s3
                        in Some (emit (dataChanged (index s4 row 0) (index s4 row 0)) s4)))))))"

definition SetDeviceIdentity ::
  "Env \<Rightarrow> int \<Rightarrow> string \<Rightarrow> string \<Rightarrow> DeviceManager \<Rightarrow> DeviceManager option" where
  "SetDeviceIdentity env row name icon_nm s =
     (case device_at s row of
        None \<Rightarrow> None
      | Some info \<Rightarrow>
          (let info1 = LoadIcon env [icon_nm] name (info\<lparr>friendly_name := name\<rparr>);
               s1 = set_device row info1 s;
               s2 = emit (dataChanged (index s1 row 0) (index s1 row 0)) s1
           in Some (if database_id info1 \<noteq> - 1
                    then call_ext (Call_SetDeviceIdentity (database_id info1) name icon_nm) s2
                    else s2)))"

definition Unmount :: "Env \<Rightarrow> int \<Rightarrow> DeviceManager \<Rightarrow> DeviceManager option" where
  "Unmount env row s =
     (case device_at s row of
        None \<Rightarrow> None
      | Some info0 \<Rightarrow>
          if database_id info0 = - 1 then Some s
          else
     (case (if device info0 \<noteq> None then Disconnect row s else Some s) of
        None \<Rightarrow> None
      | Some s1 \<Rightarrow>
     (case device_at s1 row of
        None \<Rightarrow> None
      | Some info \<Rightarrow>
     (case BestBackend env info of
        None \<Rightarrow> None
      | Some bb \<Rightarrow>
          (case lister bb of
             None \<Rightarrow> Some s1
           | Some l \<Rightarrow> Some (call_ext (Call_UnmountDevice l (unique_id bb)) s1))))))"

subsection \<open>Progress of tasks\<close>

text \<open>
  \<open>float(task.progress) / task.progress_max * 100\<close> is computed in single precision
  and stored in the \<open>int\<close> field, which truncates towards zero. The model rounds every
  operand and every result to the nearest number with a significand of 24 bits, ties to
  even (IEEE binary32 inside its normal range, every operation evaluated in single
  precision); a value outside the range of a 32-bit \<open>int\<close> cannot be converted
  (\<open>None\<close>).
\<close>

definition pow2 :: "int \<Rightarrow> rat" where
  "pow2 e = (if 0 \<le> e then 2 ^ nat e else 1 / 2 ^ nat (- e))"

fun ilog2 :: "int \<Rightarrow> int" where
  "ilog2 n = (if n < 2 then 0 else 1 + ilog2 (n div 2))"

definition exponent :: "rat \<Rightarrow> int" where
  "exponent x =
     (let e0 = ilog2 (fst (quotient_of x)) - ilog2 (snd (quotient_of x))
      in if pow2 e0 \<le> x then e0 else e0 - 1)"

definition round_even :: "rat \<Rightarrow> int" where
  "round_even q =
     (let f = \<lfloor>q\<rfloor>; r = q - of_int f
      in if r < 1 / 2 then f else if 1 / 2 < r then f + 1 else if even f then f else f + 1)"

definition to_float :: "rat \<Rightarrow> rat" where
  "to_float x =
     (if x = 0 then 0
      else (let ulp = pow2 (exponent \<bar>x\<bar> - 23)
            in sgn x * of_int (round_even (\<bar>x\<bar> / ulp)) * ulp))"

definition float_to_int :: "rat \<Rightarrow> int option" where
  "float_to_int x =
     (let t = (if 0 \<le> x then \<lfloor>x\<rfloor> else - \<lfloor>- x\<rfloor>)
      in if - 2147483648 \<le> t \<and> t \<le> 2147483647 then Some t else None)"

definition percentage :: "int \<Rightarrow> int \<Rightarrow> int option" where
  "percentage p m =
     float_to_int (to_float (to_float (to_float (of_int p) / to_float (of_int m)) * to_float 100))"

text \<open>\<open>QMap::operator[]\<close> as an assignment: the entry is replaced or inserted in key order.\<close>

fun qmap_insert :: "int \<Rightarrow> 'v \<Rightarrow> (int \<times> 'v) list \<Rightarrow> (int \<times> 'v) list" where
  "qmap_insert k v [] = [(k, v)]"
| "qmap_insert k v ((k', v') # m) =
     (if k < k' then (k, v) # (k', v') # m
      else if k = k' then (k, v) # m
      else (k', v') # qmap_insert k v m)"

fun find_device :: "DeviceInfo list \<Rightarrow> nat \<Rightarrow> int \<Rightarrow> int option" where
  "find_device [] p i = None"
| "find_device (d # ds) p i =
     (if map_option cd_ptr (device d) = Some p then Some i else find_device ds p (i + 1))"

text \<open>
  \<open>sender\<close> is the connected device that sent \<open>TaskStarted\<close>, null when the sender is
  not a connected device.
\<close>

definition DeviceTaskStarted :: "nat option \<Rightarrow> int \<Rightarrow> DeviceManager \<Rightarrow> DeviceManager" where
  "DeviceTaskStarted sender ident s =
     (case sender of
        None \<Rightarrow> s
      | Some p \<Rightarrow>
          (case find_device (devices s) p 0 of
             None \<Rightarrow> s
           | Some i \<Rightarrow>
               (let s1 = s\<lparr>active_tasks := qmap_insert ident (index s i 0) (active_tasks s)\<rparr>;
                    s2 = set_device i ((devices s1 ! nat i)\<lparr>task_percentage := 0\<rparr>) s1
                in emit (dataChanged (index s2 i 0) (index s2 i 0)) s2)))"

fun TasksChanged_tasks ::
  "Task list \<Rightarrow> QModelIndex list \<Rightarrow> DeviceManager \<Rightarrow> (QModelIndex list \<times> DeviceManager) option" where
  "TasksChanged_tasks [] finished_tasks s = Some (finished_tasks, s)"
| "TasksChanged_tasks (task # tasks) finished_tasks s =
     (case map_of (active_tasks s) (task_id task) of
        None \<Rightarrow> TasksChanged_tasks tasks finished_tasks s
      | Some None \<Rightarrow> TasksChanged_tasks tasks finished_tasks s
      | Some (Some (r, c)) \<Rightarrow>
          (case device_at s r of
             None \<Rightarrow> None
           | Some info \<Rightarrow>
               (case (if progress_max task \<noteq> 0
                      then percentage (progress task) (progress_max task) else Some 0) of
                  None \<Rightarrow> None
                | Some pct \<Rightarrow>
                    (let s1 = set_device r (info\<lparr>task_percentage := pct\<rparr>) s;
                         s2 = emit (dataChanged (Some (r, c)) (Some (r, c))) s1
                     in TasksChanged_tasks tasks (removeAll (Some (r, c)) finished_tasks) s2))))"

fun TasksChanged_finished :: "QModelIndex list \<Rightarrow> DeviceManager \<Rightarrow> DeviceManager option" where
  "TasksChanged_finished [] s = Some s"
| "TasksChanged_finished (None # finished_tasks) s = TasksChanged_finished finished_tasks s"
| "TasksChanged_finished (Some (r, c) # finished_tasks) s =
     (case device_at s r of
        None \<Rightarrow> None
      | Some info \<Rightarrow>
          (let s1 = set_device r (info\<lparr>task_percentage := - 1\<rparr>) s
           in TasksChanged_finished finished_tasks (emit (dataChanged (Some (r, c)) (Some (r, c))) s1)))"

text \<open>\<open>tasks\<close> is the snapshot \<open>task_manager_->GetTasks()\<close> returns.\<close>

definition TasksChanged :: "Task list \<Rightarrow> DeviceManager \<Rightarrow> DeviceManager option" where
  "TasksChanged tasks s =
     (case TasksChanged_tasks tasks (map snd (active_tasks s)) s of
        None \<Rightarrow> None
      | Some (finished_tasks, s1) \<Rightarrow> TasksChanged_finished finished_tasks s1)"

subsection \<open>Reading a row\<close>

datatype State = State_Remembered | State_NotConnected | State_Connected

datatype role =
    DisplayRole | DecorationRole | Role_FriendlyName | Role_UniqueId | Role_IconName
  | Role_Capacity | MusicStorage_Role_Capacity | Role_FreeSpace | MusicStorage_Role_FreeSpace
  | Role_State | Role_UpdatingPercentage | MusicStorage_Role_Storage | Role_MountPath
  | Role_other

text \<open>
  The values \<open>data\<close> returns. A pixmap is the icon it was made of and whether the
  overlay of a device that is not attached was painted on it.
\<close>

datatype QVariant =
    QVariant_null
  | QVariant_string string
  | QVariant_pixmap "string option" bool
  | QVariant_size nat
  | QVariant_state State
  | QVariant_int int
  | QVariant_storage ConnectedDevice

definition data ::
  "Env \<Rightarrow> QModelIndex \<Rightarrow> role \<Rightarrow> DeviceManager \<Rightarrow> (QVariant \<times> DeviceManager) option" where
  "data env idx rl s =
     (case idx of
        None \<Rightarrow> Some (QVariant_null, s)
      | Some (row, column) \<Rightarrow>
          if column \<noteq> 0 then Some (QVariant_null, s)
          else
     (case device_at s row of
        None \<Rightarrow> None
      | Some info \<Rightarrow>
     (case rl of
        DisplayRole \<Rightarrow>
          (case (if friendly_name info \<noteq> [] then Some (friendly_name info)
                 else map_option unique_id (BestBackend env info)) of
             None \<Rightarrow> None
           | Some text \<Rightarrow>
               Some (QVariant_string
                 (if size_bytes info \<noteq> 0 then text @ '' ('' @ PrettySize env (size_bytes info) @ '')''
                  else text), s))
      | DecorationRole \<Rightarrow>
          (case BestBackend env info of
             None \<Rightarrow> None
           | Some bb \<Rightarrow> Some (QVariant_pixmap (icon info) (lister bb = None), s))
      | Role_FriendlyName \<Rightarrow> Some (QVariant_string (friendly_name info), s)
      | Role_UniqueId \<Rightarrow>
          (case BestBackend env info of
             None \<Rightarrow> None
           | Some bb \<Rightarrow> Some (QVariant_string (unique_id bb), s))
      | Role_IconName \<Rightarrow> Some (QVariant_string (icon_name info), s)
      | Role_Capacity \<Rightarrow> Some (QVariant_size (size_bytes info), s)
      | MusicStorage_Role_Capacity \<Rightarrow> Some (QVariant_size (size_bytes info), s)
      | Role_FreeSpace \<Rightarrow>
          (case BestBackend env info of
             None \<Rightarrow> None
           | Some bb \<Rightarrow>
               (case lister bb of
                  None \<Rightarrow> Some (QVariant_null, s)
                | Some l \<Rightarrow> Some (QVariant_size (DeviceFreeSpace env l (unique_id bb)), s)))
      | MusicStorage_Role_FreeSpace \<Rightarrow>
          (case BestBackend env info of
             None \<Rightarrow> None
           | Some bb \<Rightarrow>
               (case lister bb of
                  None \<Rightarrow> Some (QVariant_null, s)
                | Some l \<Rightarrow> Some (QVariant_size (DeviceFreeSpace env l (unique_id bb)), s)))
      | Role_State \<Rightarrow>
          if device info \<noteq> None then Some (QVariant_state State_Connected, s)
          else
            (case BestBackend env info of
               None \<Rightarrow> None
             | Some bb \<Rightarrow>
                 if lister bb \<noteq> None then Some (QVariant_state State_NotConnected, s)
                 else Some (QVariant_state State_Remembered, s))
      | Role_UpdatingPercentage \<Rightarrow>
          if task_percentage info = - 1 then Some (QVariant_null, s)
          else Some (QVariant_int (task_percentage info), s)
      | MusicStorage_Role_Storage \<Rightarrow>
          (case (if device info = None then map_option snd (Connect env row s) else Some s) of
             None \<Rightarrow> None
           | Some s1 \<Rightarrow>
               (case device_at s1 row of
                  None \<Rightarrow> None
                | Some info1 \<Rightarrow>
                    (case device info1 of
                       None \<Rightarrow> Some (QVariant_null, s1)
                     | Some d \<Rightarrow> Some (QVariant_storage d, s1))))
      | Role_MountPath \<Rightarrow>
          (case device info of
             None \<Rightarrow> Some (QVariant_null, s)
           | Some d \<Rightarrow> Some (QVariant_string (url_path (cd_url d)), s))
      | Role_other \<Rightarrow> Some (QVariant_null, s))))"

subsection \<open>Sequences of requests on one row\<close>

text \<open>
  The calls of \<open>AddDevice\<close> recorded so far, and a sequence of \<open>Connect\<close> and
  \<open>Disconnect\<close> requests on one row; the collaborators may answer differently at
  every \<open>Connect\<close>.
\<close>

fun is_AddDevice :: "call \<Rightarrow> bool" where
  "is_AddDevice (Call_AddDevice d) = True"
| "is_AddDevice c = False"

definition AddDevice_calls :: "DeviceManager \<Rightarrow> call list" where
  "AddDevice_calls s = filter is_AddDevice (calls s)"



subsection \<open>Vocabulary of the properties\<close>

text \<open>
  A record has a binding of the given id; the number of such bindings in a record and in
  the whole registry; the value of a persistent index after the removal of row \<open>i\<close> (the
  loop of the source followed by \<open>endRemoveRows\<close>); all persistent indexes that exist on
  the model.
\<close>

definition has_id :: "string \<Rightarrow> DeviceInfo \<Rightarrow> bool" where
  "has_id ident d = (\<exists>b \<in> set (backends d). unique_id b = ident)"


definition binding_count :: "string \<Rightarrow> DeviceManager \<Rightarrow> nat" where
  "binding_count ident s =
     length (filter (\<lambda>b. unique_id b = ident) (concat (map backends (devices s))))"

definition removed_index :: "DeviceManager \<Rightarrow> int \<Rightarrow> QModelIndex \<Rightarrow> QModelIndex" where
  "removed_index s i idx = endRemoveRows_index s i i idx (changePersistentIndex s i idx)"

definition row_references :: "DeviceManager \<Rightarrow> QModelIndex list" where
  "row_references s = persistent s @ map snd (active_tasks s)"

text \<open>
  For the progress of tasks: a persistent index is invalid or lies inside the model; all
  indexes stored for tasks are such; the percentage the source computes for a task of
  the snapshot; a task of the snapshot is tracked on a row; the percentage stored on a
  row; the update notification of a row is among the signals emitted after the first
  \<open>n\<close>; a sequence of snapshot refreshes.
\<close>

definition valid_index :: "DeviceManager \<Rightarrow> QModelIndex \<Rightarrow> bool" where
  "valid_index s idx = (case idx of None \<Rightarrow> True | Some (r, c) \<Rightarrow> 0 \<le> r \<and> r < rowCount s \<and> c = 0)"

definition handles_valid :: "DeviceManager \<Rightarrow> bool" where
  "handles_valid s = list_all (valid_index s) (map snd (active_tasks s))"

definition percent_of :: "Task \<Rightarrow> int option" where
  "percent_of t = (if progress_max t \<noteq> 0 then percentage (progress t) (progress_max t) else Some 0)"

definition tracked_on :: "DeviceManager \<Rightarrow> int \<Rightarrow> Task \<Rightarrow> bool" where
  "tracked_on s r t = (map_of (active_tasks s) (task_id t) = Some (Some (r, 0)))"

definition row_progress :: "DeviceManager \<Rightarrow> int \<Rightarrow> int option" where
  "row_progress s r = map_option task_percentage (device_at s r)"

definition announced :: "nat \<Rightarrow> int \<Rightarrow> DeviceManager \<Rightarrow> bool" where
  "announced n r s = (dataChanged (Some (r, 0)) (Some (r, 0)) \<in> set (drop n (signals s)))"

fun run_snapshots :: "Task list list \<Rightarrow> DeviceManager \<Rightarrow> DeviceManager option" where
  "run_snapshots [] s = Some s"
| "run_snapshots (tasks # snapshots) s =
     (case TasksChanged tasks s of None \<Rightarrow> None | Some s' \<Rightarrow> run_snapshots snapshots s')"

subsection \<open>Reachable registries\<close>

text \<open>
  Every record has at least one binding. The registries the program can be in: the one
  the constructor builds from the database, and every registry a slot or a member
  function returns on one of them, with any answers of the collaborators; other objects
  may take and drop persistent indexes at any time.
\<close>

definition bindings_nonempty :: "DeviceManager \<Rightarrow> bool" where
  "bindings_nonempty s = list_all (\<lambda>d. backends d \<noteq> []) (devices s)"

inductive reachable :: "DeviceManager \<Rightarrow> bool" where
  constructed: "reachable (DeviceManager_new env db classes)"
| added: "reachable s \<Longrightarrow> PhysicalDeviceAdded env sender ident s = Some s' \<Longrightarrow> reachable s'"
| removed: "reachable s \<Longrightarrow> PhysicalDeviceRemoved sender ident s = Some s' \<Longrightarrow> reachable s'"
| changed: "reachable s \<Longrightarrow> PhysicalDeviceChanged sender ident s = Some s' \<Longrightarrow> reachable s'"
| connected: "reachable s \<Longrightarrow> Connect env row s = Some (ret, s') \<Longrightarrow> reachable s'"
| disconnected: "reachable s \<Longrightarrow> Disconnect row s = Some s' \<Longrightarrow> reachable s'"
| forgotten: "reachable s \<Longrightarrow> Forget env row s = Some s' \<Longrightarrow> reachable s'"
| renamed: "reachable s \<Longrightarrow> SetDeviceIdentity env row name icon_nm s = Some s' \<Longrightarrow> reachable s'"
| unmounted: "reachable s \<Longrightarrow> Unmount env row s = Some s' \<Longrightarrow> reachable s'"
| task_started: "reachable s \<Longrightarrow> reachable (DeviceTaskStarted task_sender task s)"
| tasks_changed: "reachable s \<Longrightarrow> TasksChanged tasks s = Some s' \<Longrightarrow> reachable s'"
| read: "reachable s \<Longrightarrow> data env idx rl s = Some (v, s') \<Longrightarrow> reachable s'"
| referenced: "reachable s \<Longrightarrow> reachable (s\<lparr>persistent := p\<rparr>)"

subsection \<open>Example configurations\<close>

text \<open>
  Concrete collaborators and registries on which the functions above are evaluated:
  every lister resolves a device to an \<open>ipod\<close> URL followed by a \<open>file\<close> URL, both
  schemes have a device class, and the database hands out the id 7.
\<close>

definition url_ex :: "string \<Rightarrow> string \<Rightarrow> QUrl" where
  "url_ex sch p = \<lparr>url_scheme = sch, url_path = p\<rparr>"

definition env_ex :: Env where
  "env_ex =
     \<lparr>priority = (\<lambda>l. int l),
      MakeDeviceUrls = (\<lambda>l i. [url_ex ''ipod'' i, url_ex ''file'' i]),
      MakeFriendlyName = (\<lambda>l i. i), DeviceCapacity = (\<lambda>l i. 0), DeviceIcons = (\<lambda>l i. []),
      DeviceFreeSpace = (\<lambda>l i. 0), AddDevice = (\<lambda>d. 7),
      newInstance = (\<lambda>mo u l i d f. Some mo), IconLoader_Load = (\<lambda>n. True),
      PrettySize = (\<lambda>n. [])\<rparr>"

definition env_fail :: Env where
  "env_fail = env_ex\<lparr>newInstance := (\<lambda>mo u l i d f. None)\<rparr>"

text \<open>A database whose \<open>AddDevice\<close> answers -1, the id of a record that is not saved.\<close>

definition env_unsaved :: Env where
  "env_unsaved = env_ex\<lparr>AddDevice := (\<lambda>d. - 1)\<rparr>"

definition info_ex :: "int \<Rightarrow> nat option \<Rightarrow> string \<Rightarrow> DeviceInfo" where
  "info_ex dbid l i =
     DeviceInfo_new\<lparr>database_id := dbid, backends := [\<lparr>lister = l, unique_id = i\<rparr>]\<rparr>"

definition registry_ex :: "DeviceInfo list \<Rightarrow> DeviceManager" where
  "registry_ex ds =
     \<lparr>devices = ds, device_classes = [''ipod'' \<mapsto> 1, ''file'' \<mapsto> 2],
      active_tasks = [], persistent = [], signals = [], calls = []\<rparr>"

text \<open>
  A connected record (persisted with id 7, session made by lister 1) and a registry of
  three unpersisted records with persistent indexes on every row.
\<close>

definition session_ex :: ConnectedDevice where
  "session_ex =
     \<lparr>cd_ptr = 2, cd_url = url_ex ''file'' ''X'', cd_lister = Some 1, cd_unique_id = ''X'',
      cd_database_id = 7, cd_first_time = True\<rparr>"

definition connected_ex :: DeviceManager where
  "connected_ex = registry_ex [(info_ex 7 (Some 1) ''X'')\<lparr>device := Some session_ex\<rparr>]"

definition three_ex :: DeviceManager where
  "three_ex =
     (registry_ex [info_ex (- 1) (Some 1) ''A'', info_ex (- 1) (Some 1) ''B'',
                   info_ex (- 1) (Some 1) ''C''])
       \<lparr>active_tasks := [(4, Some (2, 0))],
        persistent := [Some (0, 0), Some (1, 0), Some (2, 0), None]\<rparr>"

text \<open>A database with one device, saved under an empty id list, and the registry loaded from it.\<close>

definition db_ex :: "Device list" where
  "db_ex = [\<lparr>db_friendly_name = ''player'', db_size = 0, db_id = 3, db_icon_name = ''phone'',
            db_unique_id = []\<rparr>]"

definition loaded_ex :: DeviceManager where
  "loaded_ex = DeviceManager_new env_ex db_ex [''file'' \<mapsto> 2]"

text \<open>Task 4 with progress \<open>p\<close> of 10, started by the session of the connected record.\<close>

definition task_ex :: "int \<Rightarrow> Task" where
  "task_ex p = \<lparr>task_id = 4, progress = p, progress_max = 10\<rparr>"

definition started_ex :: DeviceManager where
  "started_ex = DeviceTaskStarted (Some 2) 4 connected_ex"

text \<open>The same session starts task 9 while task 4 is tracked: two tasks on row 0.\<close>

definition two_tasks_ex :: DeviceManager where
  "two_tasks_ex = DeviceTaskStarted (Some 2) 9 started_ex"

section \<open>Properties\<close>

lemmas ex_defs = url_ex_def env_ex_def env_fail_def env_unsaved_def info_ex_def registry_ex_def DeviceInfo_new_def
  session_ex_def connected_ex_def three_ex_def db_ex_def loaded_ex_def

lemmas connect_defs = Connect_def Connect_open_def device_at_def rowCount_def BestBackend_def
  isEmpty_def QUrl_empty_def call_ext_def emit_def set_device_def index_def toString_def Let_def

subsection \<open>Connecting a row\<close>

lemma BestBackend_cong: "backends a = backends b \<Longrightarrow> BestBackend env a = BestBackend env b"
  by (simp add: BestBackend_def Let_def)

lemma BestBackend_nonempty: "backends info \<noteq> [] \<Longrightarrow> BestBackend env info \<noteq> None"
  by (simp add: BestBackend_def Let_def)

lemma BestBackend_empty: "BestBackend env info = Some bb \<Longrightarrow> backends info \<noteq> []"
  by (auto simp add: BestBackend_def Let_def)

lemma device_at_set_device:
  "device_at s row = Some info \<Longrightarrow> device_at (set_device row info' s) row = Some info'"
  by (auto simp: device_at_def set_device_def rowCount_def split: if_splits)

lemma device_at_set_device_other:
  "row' \<noteq> row \<Longrightarrow> 0 \<le> row \<Longrightarrow> device_at (set_device row info' s) row' = device_at s row'"
  by (auto simp: device_at_def set_device_def rowCount_def split: if_splits)

lemma device_at_emit [simp]: "device_at (emit sg s) row = device_at s row"
  by (simp add: device_at_def emit_def rowCount_def)

lemma device_at_call_ext [simp]: "device_at (call_ext c s) row = device_at s row"
  by (simp add: device_at_def call_ext_def rowCount_def)

lemma calls_emit [simp]: "calls (emit sg s) = calls s"
  by (simp add: emit_def)

lemma calls_set_device [simp]: "calls (set_device row info s) = calls s"
  by (simp add: set_device_def)

lemma calls_call_ext [simp]: "calls (call_ext c s) = calls s @ [c]"
  by (simp add: call_ext_def)

lemma Connect_open_result:
  assumes "device_at s row = Some info" and "backends info \<noteq> []"
    and "BestBackend env info = Some bb" and "lister bb \<noteq> None"
  shows "\<exists>ret s' info'. Connect_open env row ft s = Some (ret, s')
     \<and> device_at s' row = Some info' \<and> database_id info' = database_id info
     \<and> backends info' = backends info
     \<and> device info' = (case ret of None \<Rightarrow> device info | Some d \<Rightarrow> Some d)
     \<and> AddDevice_calls s' = AddDevice_calls s"
  using assms
  by (auto simp: Connect_open_def Let_def AddDevice_calls_def device_at_set_device
           split: option.splits)

lemma AddDevice_calls_simps [simp]:
  "AddDevice_calls (emit sg s) = AddDevice_calls s"
  "AddDevice_calls (set_device row info s) = AddDevice_calls s"
  "AddDevice_calls (call_ext c s) = AddDevice_calls s @ (if is_AddDevice c then [c] else [])"
  by (simp_all add: AddDevice_calls_def)

lemma Connect_persisted:
  assumes "device_at s row = Some info" and "backends info \<noteq> []" and "database_id info \<noteq> - 1"
  shows "\<exists>ret s' info'. Connect env row s = Some (ret, s')
     \<and> device_at s' row = Some info' \<and> database_id info' = database_id info
     \<and> backends info' = backends info
     \<and> AddDevice_calls s' = AddDevice_calls s"
proof (cases "device info")
  case (Some d)
  with assms show ?thesis by (simp add: Connect_def)
next
  case None
  from assms(2) obtain bb where bb: "BestBackend env info = Some bb"
    using BestBackend_nonempty by blast
  show ?thesis
  proof (cases "lister bb")
    case None
    with assms bb \<open>device info = None\<close> show ?thesis by (simp add: Connect_def)
  next
    case (Some l)
    then have "lister bb \<noteq> None" by simp
    from Connect_open_result [OF assms(1,2) bb this, of False]
    show ?thesis using assms bb Some \<open>device info = None\<close>
      by (simp add: Connect_def) blast
  qed
qed



lemma first_Connect:
  assumes "device_at s row = Some info" and "device info = None" and "database_id info = - 1"
    and "BestBackend env info = Some bb" and "lister bb \<noteq> None"
  shows "\<exists>ret s' info'. Connect env row s = Some (ret, s')
     \<and> Connect env row s = Connect_open env row True
          (set_device row (info\<lparr>database_id := AddDevice env (SaveToDb info)\<rparr>)
             (call_ext (Call_AddDevice (SaveToDb info)) s))
     \<and> device_at s' row = Some info'
     \<and> database_id info' = AddDevice env (SaveToDb info)
     \<and> backends info' = backends info
     \<and> AddDevice_calls s' = AddDevice_calls s @ [Call_AddDevice (SaveToDb info)]"
proof -
  let ?info1 = "info\<lparr>database_id := AddDevice env (SaveToDb info)\<rparr>"
  let ?s1 = "set_device row ?info1 (call_ext (Call_AddDevice (SaveToDb info)) s)"
  have eq: "Connect env row s = Connect_open env row True ?s1"
    using assms by (auto simp add: Connect_def)
  have d: "device_at ?s1 row = Some ?info1"
    using assms(1) by (simp add: device_at_set_device)
  have ne: "backends ?info1 \<noteq> []"
    using assms(4) BestBackend_empty by fastforce
  have bb: "BestBackend env ?info1 = Some bb"
    using assms(4) BestBackend_cong [of ?info1 info env] by simp
  from Connect_open_result [OF d ne bb assms(5), of True]
  show ?thesis using eq by auto
qed

subsection \<open>Looking up an id\<close>

lemma FindDeviceById_loop_found:
  "FindDeviceById_loop ds ident i = r \<Longrightarrow> 0 \<le> i \<Longrightarrow> r \<noteq> - 1 \<Longrightarrow>
     i \<le> r \<and> nat (r - i) < length ds \<and> has_id ident (ds ! nat (r - i))
     \<and> (\<forall>j < nat (r - i). \<not> has_id ident (ds ! j))"
proof (induction ds arbitrary: i)
  case Nil
  then show ?case by simp
next
  case (Cons d ds)
  show ?case
  proof (cases "has_id ident d")
    case True
    with Cons.prems show ?thesis by (simp add: has_id_def)
  next
    case False
    with Cons.prems have r: "FindDeviceById_loop ds ident (i + 1) = r"
      by (simp add: has_id_def)
    from Cons.IH [OF r] Cons.prems have
      ih: "i + 1 \<le> r" "nat (r - (i + 1)) < length ds" "has_id ident (ds ! nat (r - (i + 1)))"
          "\<forall>j < nat (r - (i + 1)). \<not> has_id ident (ds ! j)"
      by auto
    have n: "nat (r - i) = Suc (nat (r - (i + 1)))"
      using ih(1) by simp
    show ?thesis
      unfolding n using ih False by (auto simp: less_Suc_eq_0_disj)
  qed
qed


lemma FindDeviceById_loop_first:
  "k < length ds \<Longrightarrow> has_id ident (ds ! k) \<Longrightarrow> \<forall>j < k. \<not> has_id ident (ds ! j) \<Longrightarrow>
     FindDeviceById_loop ds ident i = i + int k"
proof (induction ds arbitrary: i k)
  case Nil
  then show ?case by simp
next
  case (Cons d ds)
  show ?case
  proof (cases k)
    case 0
    with Cons.prems show ?thesis by (simp add: has_id_def)
  next
    case (Suc k')
    with Cons.prems have "\<not> has_id ident d" by auto
    moreover have "FindDeviceById_loop ds ident (i + 1) = i + 1 + int k'"
      using Cons.prems Suc by (intro Cons.IH) auto
    ultimately show ?thesis using Suc by (simp add: has_id_def)
  qed
qed

lemma FindDeviceById_found:
  assumes "FindDeviceById s ident = i" and "i \<noteq> - 1"
  shows "0 \<le> i \<and> i < rowCount s \<and> device_at s i = Some (devices s ! nat i)
     \<and> has_id ident (devices s ! nat i) \<and> (\<forall>j < nat i. \<not> has_id ident (devices s ! j))"
  using FindDeviceById_loop_found [of "devices s" ident 0 i] assms
  by (auto simp: FindDeviceById_def device_at_def rowCount_def)


lemma FindDeviceById_first:
  "k < length (devices s) \<Longrightarrow> has_id ident (devices s ! k) \<Longrightarrow>
   \<forall>j < k. \<not> has_id ident (devices s ! j) \<Longrightarrow> FindDeviceById s ident = int k"
  using FindDeviceById_loop_first [of k "devices s" ident 0] by (simp add: FindDeviceById_def)

lemma set_lister_ids [simp]: "map unique_id (set_lister ident l bs) = map unique_id bs"
  by (induction bs) auto

lemma set_lister_length [simp]: "length (set_lister ident l bs) = length bs"
  by (induction bs) auto

lemma set_lister_idem [simp]: "set_lister ident l (set_lister ident l bs) = set_lister ident l bs"
  by (induction bs) auto

lemma set_lister_absent: "\<forall>b \<in> set bs. unique_id b \<noteq> ident \<Longrightarrow> set_lister ident l bs = bs"
  by (induction bs) auto


lemma set_lister_None_all:
  "distinct (map unique_id bs) \<Longrightarrow> \<forall>b \<in> set bs. lister b \<noteq> None \<longrightarrow> unique_id b = ident \<Longrightarrow>
     \<forall>b \<in> set (set_lister ident None bs). lister b = None"
proof (induction bs)
  case Nil
  then show ?case by simp
next
  case (Cons b bs)
  show ?case
  proof (cases "unique_id b = ident")
    case True
    from Cons.prems(1) have "unique_id b \<notin> set (map unique_id bs)" by simp
    with True have "\<forall>b' \<in> set bs. unique_id b' \<noteq> ident" by (auto simp: image_iff)
    with Cons.prems have "\<forall>b' \<in> set bs. lister b' = None" by auto
    with True show ?thesis by simp
  next
    case False
    from Cons.prems have "distinct (map unique_id bs)"
      and "\<forall>b' \<in> set bs. lister b' \<noteq> None \<longrightarrow> unique_id b' = ident"
      and "lister b = None"
      using False by auto
    with Cons.IH False show ?thesis by simp
  qed
qed

lemma has_id_ids: "has_id ident d = (ident \<in> set (map unique_id (backends d)))"
  by (auto simp: has_id_def)

lemma has_id_cong:
  "map unique_id (backends a) = map unique_id (backends b) \<Longrightarrow> has_id ident a = has_id ident b"
  by (simp only: has_id_ids)

lemma BestBackend_loop_dead:
  "\<forall>b \<in> set bs. lister b = None \<Longrightarrow> BestBackend_loop env bs p ret = ret"
  by (induction bs arbitrary: p ret) auto

lemma BestBackend_dead:
  "backends info \<noteq> [] \<Longrightarrow> \<forall>b \<in> set (backends info). lister b = None \<Longrightarrow>
     BestBackend env info = Some (hd (backends info))"
  by (simp add: BestBackend_def BestBackend_loop_dead)

lemma devices_emit [simp]: "devices (emit sg s) = devices s"
  by (simp add: emit_def)

lemma devices_set_device [simp]: "devices (set_device row info s) = (devices s)[nat row := info]"
  by (simp add: set_device_def)

lemma rowCount_emit [simp]: "rowCount (emit sg s) = rowCount s"
  by (simp add: rowCount_def)

lemma rowCount_set_device [simp]: "rowCount (set_device row info s) = rowCount s"
  by (simp add: rowCount_def)

lemma signals_emit [simp]: "signals (emit sg s) = signals s @ [sg]"
  by (simp add: emit_def)

lemma signals_set_device [simp]: "signals (set_device row info s) = signals s"
  by (simp add: set_device_def)

lemma FindDeviceById_update:
  assumes "FindDeviceById s ident = i" and "i \<noteq> - 1"
    and "devices s' = (devices s)[nat i := info']"
    and "map unique_id (backends info') = map unique_id (backends (devices s ! nat i))"
  shows "FindDeviceById s' ident = i"
proof -
  from FindDeviceById_found [OF assms(1,2)] have
    f: "0 \<le> i" "i < rowCount s" "has_id ident (devices s ! nat i)"
       "\<forall>j < nat i. \<not> has_id ident (devices s ! j)"
    by auto
  have len: "nat i < length (devices s')"
    using f assms(3) by (simp add: rowCount_def)
  have h: "has_id ident (devices s' ! nat i)"
    using f len assms(3,4) has_id_cong [of info' "devices s ! nat i" ident] by simp
  have "\<forall>j < nat i. \<not> has_id ident (devices s' ! j)"
    using f(4) assms(3) by simp
  from FindDeviceById_first [OF len h this] f(1) show ?thesis by simp
qed

lemma remove_backend_single:
  "length bs = 1 \<Longrightarrow> \<exists>b \<in> set bs. unique_id b = ident \<Longrightarrow> remove_backend ident bs = []"
  by (cases bs) auto

lemma changePersistentIndex_cases:
  assumes "0 \<le> i" and "rowCount s2 = n - 1"
  shows "changePersistentIndex s2 i (Some (r, c)) =
     (if r = i then None else if r < i then Some (r, c)
      else if r < n \<and> c = 0 then Some (r - 1, c) else None)"
  using assms by (auto simp: changePersistentIndex_def index_def)

lemma changePersistentIndex_cong:
  "devices a = devices b \<Longrightarrow> changePersistentIndex a = changePersistentIndex b"
  by (intro ext) (simp add: changePersistentIndex_def index_def rowCount_def split: option.splits)

lemma removed_index_None [simp]: "removed_index s i None = None"
  by (simp add: removed_index_def endRemoveRows_index_def changePersistentIndex_def)

lemma removed_index_cases:
  assumes "0 \<le> i" and "rowCount s2 = n - 1"
  shows "removed_index s2 i (Some (r, c)) =
     (if r = i then None else if r < i then Some (r, c)
      else if r < n \<and> c = 0 \<and> 2 \<le> r then Some (r - 2, c) else None)"
  using assms
  by (auto simp: removed_index_def endRemoveRows_index_def changePersistentIndex_def index_def)

lemma changePersistentIndex_rowCount:
  "rowCount a = rowCount b \<Longrightarrow> changePersistentIndex a = changePersistentIndex b"
  by (intro ext) (simp add: changePersistentIndex_def index_def split: option.splits)

lemma endRemoveRows_index_rowCount:
  "rowCount a = rowCount b \<Longrightarrow> endRemoveRows_index a = endRemoveRows_index b"
  by (intro ext) (simp add: endRemoveRows_index_def index_def split: option.splits)

lemma map2_same: "map2 f xs (map g xs) = map (\<lambda>x. f x (g x)) xs"
  by (induction xs) auto

lemma persistent_remove_row:
  "persistent (remove_row i s)
     = map (removed_index (s\<lparr>devices := removeAt (nat i) (devices s)\<rparr>) i) (persistent s)"
  and active_tasks_remove_row:
  "active_tasks (remove_row i s)
     = map (\<lambda>(k, idx). (k, removed_index (s\<lparr>devices := removeAt (nat i) (devices s)\<rparr>) i idx))
         (active_tasks s)"
proof -
  define t where "t = s\<lparr>devices := removeAt (nat i) (devices s)\<rparr>"
  define s1 where "s1 = emit (rowsAboutToBeRemoved i i) s"
  define s2 where "s2 = s1\<lparr>devices := removeAt (nat i) (devices s1)\<rparr>"
  define s3 where "s3 = s2\<lparr>persistent := map (changePersistentIndex s2 i) (persistent s2),
        active_tasks := map (\<lambda>(k, idx). (k, changePersistentIndex s2 i idx)) (active_tasks s2)\<rparr>"
  define s4 where "s4 = s3\<lparr>persistent := map2 (endRemoveRows_index s3 i i) (persistent s1) (persistent s3),
        active_tasks := map2 (\<lambda>(k, noted) (k', idx). (k', endRemoveRows_index s3 i i noted idx))
                          (active_tasks s1) (active_tasks s3)\<rparr>"
  have r: "remove_row i s = emit (rowsRemoved i i) s4"
    unfolding remove_row_def Let_def s4_def s3_def s2_def s1_def ..
  have rc: "rowCount s2 = rowCount t" "rowCount s3 = rowCount t"
    by (simp_all add: rowCount_def s3_def s2_def s1_def t_def emit_def)
  have c: "changePersistentIndex s2 = changePersistentIndex t"
    using rc(1) by (rule changePersistentIndex_rowCount)
  have e: "endRemoveRows_index s3 = endRemoveRows_index t"
    using rc(2) by (rule endRemoveRows_index_rowCount)
  have p1: "persistent s1 = persistent s" "active_tasks s1 = active_tasks s"
    by (simp_all add: s1_def emit_def)
  have p2: "persistent s2 = persistent s" "active_tasks s2 = active_tasks s"
    by (simp_all add: s2_def p1)
  have p3: "persistent s3 = map (changePersistentIndex t i) (persistent s)"
    "active_tasks s3 = map (\<lambda>(k, idx). (k, changePersistentIndex t i idx)) (active_tasks s)"
    by (simp_all add: s3_def p2 c)
  have p4: "persistent s4 = map (removed_index t i) (persistent s)"
    "active_tasks s4 = map (\<lambda>(k, idx). (k, removed_index t i idx)) (active_tasks s)"
    by (auto simp add: s4_def p1 p3 e map2_same removed_index_def)
  show "persistent (remove_row i s)
     = map (removed_index (s\<lparr>devices := removeAt (nat i) (devices s)\<rparr>) i) (persistent s)"
    unfolding r using p4(1) by (simp add: emit_def t_def)
  show "active_tasks (remove_row i s)
     = map (\<lambda>(k, idx). (k, removed_index (s\<lparr>devices := removeAt (nat i) (devices s)\<rparr>) i idx))
         (active_tasks s)"
    unfolding r using p4(2) by (simp add: emit_def t_def)
qed

lemma row_references_remove_row:
  "row_references (remove_row i s) =
     map (removed_index (s\<lparr>devices := removeAt (nat i) (devices s)\<rparr>) i) (row_references s)"
  by (simp add: row_references_def persistent_remove_row active_tasks_remove_row
      case_prod_unfold comp_def)

subsection \<open>Counting bindings\<close>








lemma backends_LoadIcon [simp]: "backends (LoadIcon env icons hint info) = backends info"
  by (simp add: LoadIcon_def Let_def split: option.splits)

lemma database_id_LoadIcon [simp]: "database_id (LoadIcon env icons hint info) = database_id info"
  by (simp add: LoadIcon_def Let_def split: option.splits)

lemma device_LoadIcon [simp]: "device (LoadIcon env icons hint info) = device info"
  by (simp add: LoadIcon_def Let_def split: option.splits)





subsection \<open>Deliveries of a device\<close>


lemma binding_count_emit [simp]: "binding_count ident (emit sg s) = binding_count ident s"
  by (simp add: binding_count_def)




subsection \<open>Bindings are never empty\<close>

lemma bindings_nonempty_iff: "bindings_nonempty s = (\<forall>d \<in> set (devices s). backends d \<noteq> [])"
  by (simp add: bindings_nonempty_def list_all_iff)

lemma device_at_in_set: "device_at s row = Some info \<Longrightarrow> info \<in> set (devices s)"
  by (auto simp: device_at_def rowCount_def split: if_splits)

lemma bindings_nonempty_at:
  "bindings_nonempty s \<Longrightarrow> device_at s row = Some info \<Longrightarrow> backends info \<noteq> []"
  using device_at_in_set by (auto simp: bindings_nonempty_iff)

lemma bindings_nonempty_emit [simp]: "bindings_nonempty (emit sg s) = bindings_nonempty s"
  by (simp add: bindings_nonempty_def)

lemma devices_call_ext [simp]: "devices (call_ext c s) = devices s"
  by (simp add: call_ext_def)

lemma bindings_nonempty_call_ext [simp]: "bindings_nonempty (call_ext c s) = bindings_nonempty s"
  by (simp add: bindings_nonempty_def)

lemma bindings_nonempty_set_device:
  "bindings_nonempty s \<Longrightarrow> backends info \<noteq> [] \<Longrightarrow> bindings_nonempty (set_device row info s)"
  using set_update_subset_insert [of "devices s" "nat row" info]
  by (auto simp: bindings_nonempty_iff)

lemma set_removeAt: "set (removeAt i xs) \<subseteq> set xs"
  using set_take_subset [of i xs] set_drop_subset [of "Suc i" xs] by (auto simp: removeAt_def)

lemma removeAt_update [simp]: "removeAt i (xs[i := x]) = removeAt i xs"
  by (simp add: removeAt_def)

lemma devices_remove_row [simp]: "devices (remove_row i s) = removeAt (nat i) (devices s)"
  by (simp add: remove_row_def Let_def emit_def)

lemma bindings_nonempty_remove_row:
  "bindings_nonempty s \<Longrightarrow> bindings_nonempty (remove_row i s)"
  using set_removeAt [of "nat i" "devices s"] by (auto simp: bindings_nonempty_iff)

lemma bindings_nonempty_remove_row_update:
  "bindings_nonempty s \<Longrightarrow> bindings_nonempty (remove_row i (set_device i info s))"
  using set_removeAt [of "nat i" "devices s"] by (auto simp: bindings_nonempty_iff)

lemma split_nonempty [simp]: "split c s \<noteq> []"
  by (induction s) (auto split: list.splits)

lemma bindings_nonempty_new: "bindings_nonempty (DeviceManager_new env db classes)"
  by (simp add: bindings_nonempty_iff DeviceManager_new_def InitFromDb_def Let_def)

lemma set_lister_nonempty [simp]: "(set_lister ident l bs = []) = (bs = [])"
  by (cases bs) auto

lemma bindings_nonempty_PhysicalDeviceAdded:
  assumes "bindings_nonempty s" and "PhysicalDeviceAdded env sender ident s = Some s'"
  shows "bindings_nonempty s'"
  using assms
  by (auto simp: PhysicalDeviceAdded_def Let_def bindings_nonempty_at bindings_nonempty_iff
      dest!: set_update_subset_insert [THEN subsetD] device_at_in_set
      split: if_splits option.splits)

lemma bindings_nonempty_PhysicalDeviceRemoved:
  assumes "bindings_nonempty s" and "PhysicalDeviceRemoved sender ident s = Some s'"
  shows "bindings_nonempty s'"
proof (cases "FindDeviceById s ident = - 1")
  case True
  with assms show ?thesis by (simp add: PhysicalDeviceRemoved_def)
next
  case False
  from FindDeviceById_found [OF refl False] obtain info where
    at: "device_at s (FindDeviceById s ident) = Some info" by blast
  from bindings_nonempty_at [OF assms(1) at] have ne: "backends info \<noteq> []" .
  show ?thesis
  proof (cases "database_id info \<noteq> - 1")
    case True
    then show ?thesis
      using assms False at ne
      by (auto simp: PhysicalDeviceRemoved_def Let_def intro!: bindings_nonempty_set_device
          split: option.splits if_splits)
  next
    case u: False
    then show ?thesis
      using assms False at
      by (auto simp: PhysicalDeviceRemoved_def Let_def
          intro!: bindings_nonempty_set_device bindings_nonempty_remove_row_update
          split: if_splits)
  qed
qed

lemma bindings_nonempty_Connect_open:
  assumes "bindings_nonempty s" and "Connect_open env row ft s = Some (ret, s')"
  shows "bindings_nonempty s'"
  using assms
  by (auto simp: Connect_open_def Let_def bindings_nonempty_at
      intro!: bindings_nonempty_set_device split: option.splits if_splits)

lemma bindings_nonempty_Connect:
  assumes "bindings_nonempty s" and "Connect env row s = Some (ret, s')"
  shows "bindings_nonempty s'"
  using assms
  by (auto simp: Connect_def Let_def bindings_nonempty_at
      intro!: bindings_nonempty_set_device
      elim!: bindings_nonempty_Connect_open [rotated]
      split: option.splits if_splits)

lemma bindings_nonempty_Disconnect:
  assumes "bindings_nonempty s" and "Disconnect row s = Some s'"
  shows "bindings_nonempty s'"
  using assms
  by (auto simp: Disconnect_def Let_def bindings_nonempty_at
      intro!: bindings_nonempty_set_device split: option.splits if_splits)

lemma bindings_nonempty_Forget:
  assumes "bindings_nonempty s" and "Forget env row s = Some s'"
  shows "bindings_nonempty s'"
proof -
  obtain info0 where at0: "device_at s row = Some info0"
    using assms(2) by (auto simp: Forget_def split: option.splits)
  show ?thesis
  proof (cases "database_id info0 = - 1")
    case True
    with assms at0 show ?thesis by (simp add: Forget_def)
  next
    case False
    obtain s1 where s1: "(if device info0 \<noteq> None then Disconnect row s else Some s) = Some s1"
      using assms(2) at0 False by (auto simp: Forget_def split: option.splits if_splits)
    have inv1: "bindings_nonempty s1"
      using s1 assms(1) bindings_nonempty_Disconnect by (auto split: if_splits)
    obtain info1 where at1: "device_at s1 row = Some info1"
      using assms(2) at0 False s1 by (auto simp: Forget_def split: option.splits if_splits)
    have ne: "backends info1 \<noteq> []"
      using bindings_nonempty_at [OF inv1 at1] .
    let ?s3 = "set_device row (info1\<lparr>database_id := - 1\<rparr>) (call_ext (Call_RemoveDevice (database_id info1)) s1)"
    have inv3: "bindings_nonempty ?s3"
      using inv1 ne by (intro bindings_nonempty_set_device) simp_all
    from assms(2) at0 False s1 at1 show ?thesis
      using inv3 ne
      by (auto simp: Forget_def Let_def
          intro!: bindings_nonempty_remove_row bindings_nonempty_set_device
          split: option.splits if_splits)
  qed
qed

lemma bindings_nonempty_SetDeviceIdentity:
  assumes "bindings_nonempty s" and "SetDeviceIdentity env row name icon_nm s = Some s'"
  shows "bindings_nonempty s'"
  using assms
  by (auto simp: SetDeviceIdentity_def Let_def bindings_nonempty_at
      intro!: bindings_nonempty_set_device split: option.splits if_splits)

lemma bindings_nonempty_Unmount:
  assumes "bindings_nonempty s" and "Unmount env row s = Some s'"
  shows "bindings_nonempty s'"
  using assms
  by (auto simp: Unmount_def Let_def dest: bindings_nonempty_Disconnect
      split: option.splits if_splits)

lemma find_device_range:
  "find_device ds p i = Some r \<Longrightarrow> i \<le> r \<and> r < i + int (length ds)"
proof (induction ds arbitrary: i)
  case Nil
  then show ?case by simp
next
  case (Cons d ds)
  show ?case
  proof (cases "map_option cd_ptr (device d) = Some p")
    case True
    with Cons.prems show ?thesis by simp
  next
    case False
    with Cons.prems have "find_device ds p (i + 1) = Some r" by (auto split: if_splits)
    from Cons.IH [OF this] show ?thesis by simp
  qed
qed

lemma bindings_nonempty_DeviceTaskStarted:
  assumes "bindings_nonempty s"
  shows "bindings_nonempty (DeviceTaskStarted sender ident s)"
proof (cases sender)
  case None
  with assms show ?thesis by (simp add: DeviceTaskStarted_def)
next
  case (Some p)
  show ?thesis
  proof (cases "find_device (devices s) p 0")
    case None
    with Some assms show ?thesis by (simp add: DeviceTaskStarted_def)
  next
    case (Some i)
    from find_device_range [OF Some] have "nat i < length (devices s)" by (simp add: nat_less_iff)
    then have "backends (devices s ! nat i) \<noteq> []"
      using assms by (simp add: bindings_nonempty_iff)
    moreover have "bindings_nonempty (s\<lparr>active_tasks := m\<rparr>)" for m
      using assms by (simp add: bindings_nonempty_def)
    ultimately show ?thesis
      using Some \<open>sender = Some p\<close>
      by (auto simp: DeviceTaskStarted_def Let_def intro!: bindings_nonempty_set_device)
  qed
qed

lemma bindings_nonempty_TasksChanged_tasks:
  "bindings_nonempty s \<Longrightarrow> TasksChanged_tasks tasks finished s = Some (finished', s') \<Longrightarrow>
     bindings_nonempty s'"
proof (induction tasks arbitrary: finished s)
  case Nil
  then show ?case by simp
next
  case (Cons task tasks)
  show ?case
  proof (cases "map_of (active_tasks s) (task_id task)")
    case None
    with Cons show ?thesis by simp
  next
    case (Some idx)
    show ?thesis
    proof (cases idx)
      case None
      with Some Cons show ?thesis by simp
    next
      case (Some rc)
      obtain r c where rc: "rc = (r, c)" by (cases rc)
      from Cons.prems(2) \<open>map_of (active_tasks s) (task_id task) = Some idx\<close> Some rc
      obtain info pct where
        at: "device_at s r = Some info" and
        rest: "TasksChanged_tasks tasks (removeAll (Some (r, c)) finished)
                 (emit (dataChanged (Some (r, c)) (Some (r, c)))
                    (set_device r (info\<lparr>task_percentage := pct\<rparr>) s)) = Some (finished', s')"
        by (auto simp: Let_def split: option.splits if_splits)
      have "bindings_nonempty (emit (dataChanged (Some (r, c)) (Some (r, c)))
                    (set_device r (info\<lparr>task_percentage := pct\<rparr>) s))"
        using Cons.prems(1) bindings_nonempty_at [OF Cons.prems(1) at]
        by (simp add: bindings_nonempty_set_device)
      from Cons.IH [OF this rest] show ?thesis .
    qed
  qed
qed

lemma bindings_nonempty_TasksChanged_finished:
  "bindings_nonempty s \<Longrightarrow> TasksChanged_finished finished s = Some s' \<Longrightarrow> bindings_nonempty s'"
proof (induction finished s rule: TasksChanged_finished.induct)
  case (1 s)
  then show ?case by simp
next
  case (2 finished_tasks s)
  then show ?case by simp
next
  case (3 r c finished_tasks s)
  from "3.prems"(2) obtain info where
    at: "device_at s r = Some info" and
    rest: "TasksChanged_finished finished_tasks
             (emit (dataChanged (Some (r, c)) (Some (r, c)))
                (set_device r (info\<lparr>task_percentage := - 1\<rparr>) s)) = Some s'"
    by (auto simp: Let_def split: option.splits)
  have "bindings_nonempty (emit (dataChanged (Some (r, c)) (Some (r, c)))
                (set_device r (info\<lparr>task_percentage := - 1\<rparr>) s))"
    using "3.prems"(1) bindings_nonempty_at [OF "3.prems"(1) at]
    by (simp add: bindings_nonempty_set_device)
  from "3.IH" [OF at refl this] rest show ?case by (simp add: Let_def)
qed

lemma bindings_nonempty_TasksChanged:
  "bindings_nonempty s \<Longrightarrow> TasksChanged tasks s = Some s' \<Longrightarrow> bindings_nonempty s'"
  by (auto simp: TasksChanged_def split: option.splits
      dest: bindings_nonempty_TasksChanged_tasks bindings_nonempty_TasksChanged_finished)

lemma data_read_only:
  assumes "rl \<noteq> MusicStorage_Role_Storage" and "data env idx rl s = Some (v, s')"
  shows "s' = s"
proof (cases idx)
  case None
  with assms(2) show ?thesis by (simp add: data_def)
next
  case (Some rc)
  obtain row col where rc: "rc = (row, col)" by (cases rc)
  show ?thesis
  proof (cases "col \<noteq> 0 \<or> device_at s row = None")
    case True
    with assms(2) Some rc show ?thesis by (auto simp: data_def split: if_splits)
  next
    case False
    then obtain info where "col = 0" "device_at s row = Some info" by auto
    with assms Some rc show ?thesis
      by (cases rl) (simp_all add: data_def split: option.splits if_splits)
  qed
qed

lemma bindings_nonempty_data:
  assumes "bindings_nonempty s" and "data env idx rl s = Some (v, s')"
  shows "bindings_nonempty s'"
proof (cases "rl = MusicStorage_Role_Storage")
  case False
  from data_read_only [OF False assms(2)] assms(1) show ?thesis by simp
next
  case True
  with assms show ?thesis
    by (auto simp: data_def split: option.splits if_splits prod.splits
        dest: bindings_nonempty_Connect)
qed

lemma Connect_total:
  assumes "device_at s row = Some info" and "backends info \<noteq> []"
  shows "\<exists>ret s' info'. Connect env row s = Some (ret, s') \<and> device_at s' row = Some info'"
proof (cases "database_id info = - 1")
  case False
  from Connect_persisted [OF assms False, of env] show ?thesis by blast
next
  case True
  from assms(2) obtain bb where bb: "BestBackend env info = Some bb"
    using BestBackend_nonempty by blast
  show ?thesis
  proof (cases "device info = None \<and> lister bb \<noteq> None")
    case True
    then have "device info = None" "lister bb \<noteq> None" by simp_all
    from first_Connect [OF assms(1) this(1) \<open>database_id info = - 1\<close> bb this(2)]
    obtain ret s' info' where "Connect env row s = Some (ret, s')" "device_at s' row = Some info'"
      by blast
    then show ?thesis by blast
  next
    case False
    with assms bb show ?thesis by (auto simp: Connect_def split: option.splits)
  qed
qed

lemma data_total:
  assumes "device_at s row = Some info" and "backends info \<noteq> []"
  shows "data env (Some (row, 0)) rl s \<noteq> None"
proof -
  from assms(2) obtain bb where bb: "BestBackend env info = Some bb"
    using BestBackend_nonempty by blast
  show ?thesis
  proof (cases "rl = MusicStorage_Role_Storage")
    case False
    then show ?thesis
      using assms(1) bb by (cases rl) (auto simp: data_def split: option.splits)
  next
    case True
    from Connect_total [OF assms, of env] obtain ret s' info' where
      "Connect env row s = Some (ret, s')" "device_at s' row = Some info'" by blast
    with True assms(1) show ?thesis
      by (auto simp: data_def split: option.splits)
  qed
qed

lemma reachable_bindings_nonempty: "reachable s \<Longrightarrow> bindings_nonempty s"
proof (induction rule: reachable.induct)
  case (constructed env db classes)
  show ?case by (rule bindings_nonempty_new)
next
  case (added s env sender ident s')
  then show ?case using bindings_nonempty_PhysicalDeviceAdded by blast
next
  case (removed s sender ident s')
  then show ?case using bindings_nonempty_PhysicalDeviceRemoved by blast
next
  case (changed s sender ident s')
  then show ?case by (simp add: PhysicalDeviceChanged_def Let_def split: if_splits)
next
  case (connected s env row ret s')
  then show ?case using bindings_nonempty_Connect by blast
next
  case (disconnected s row s')
  then show ?case using bindings_nonempty_Disconnect by blast
next
  case (forgotten s env row s')
  then show ?case using bindings_nonempty_Forget by blast
next
  case (renamed s env row name icon_nm s')
  then show ?case using bindings_nonempty_SetDeviceIdentity by blast
next
  case (unmounted s env row s')
  then show ?case using bindings_nonempty_Unmount by blast
next
  case (task_started s task_sender task)
  then show ?case using bindings_nonempty_DeviceTaskStarted by blast
next
  case (tasks_changed s tasks s')
  then show ?case using bindings_nonempty_TasksChanged by blast
next
  case (read s env idx rl v s')
  then show ?case using bindings_nonempty_data by blast
next
  case (referenced s p)
  then show ?case by (simp add: bindings_nonempty_def)
qed

subsection \<open>Single-precision rounding\<close>

text \<open>
  The exponent the model computes brackets the number, so every rounding changes a
  positive number by at most the fraction \<open>1 / 2 ^ 24\<close> of itself. For a task with
  \<open>0 \<le> progress \<le> progress_max\<close> the four roundings of the source's expression keep
  the result within \<open>1 / 40000\<close> of the exact percentage.
\<close>

declare ilog2.simps [simp del]

lemma pow2_powi: "pow2 e = 2 powi e"
  by (simp add: pow2_def power_int_def field_simps)

lemma pow2_pos: "0 < pow2 e"
  by (simp add: pow2_powi)

lemma pow2_add: "pow2 (a + b) = pow2 a * pow2 b"
  by (simp add: pow2_powi power_int_add)

lemma pow2_diff: "pow2 (a - b) = pow2 a / pow2 b"
  by (simp add: pow2_powi power_int_diff)

lemma pow2_1: "pow2 1 = 2" and pow2_24: "pow2 24 = 16777216"
  by (simp_all add: pow2_def)

lemma ilog2_nonneg: "0 \<le> ilog2 n"
  by (induction n rule: ilog2.induct) (subst ilog2.simps, simp)

lemma ilog2_int_bounds:
  "1 \<le> n \<Longrightarrow> 2 ^ nat (ilog2 n) \<le> n \<and> n < 2 * 2 ^ nat (ilog2 n)"
proof (induction n rule: ilog2.induct)
  case (1 n)
  show ?case
  proof (cases "n < 2")
    case True
    with 1(2) have "n = 1" by simp
    moreover have "ilog2 1 = 0" by (subst ilog2.simps) simp
    ultimately show ?thesis by simp
  next
    case False
    then have h: "1 \<le> n div 2" by simp
    define k where "k = nat (ilog2 (n div 2))"
    from 1(1) [OF False h] have
      lo: "2 ^ k \<le> n div 2" and hi: "n div 2 < 2 * 2 ^ k"
      by (simp_all add: k_def)
    have e: "ilog2 n = 1 + ilog2 (n div 2)"
      using False by (subst ilog2.simps) simp
    have nk: "nat (ilog2 n) = Suc k"
      unfolding e k_def using ilog2_nonneg [of "n div 2"] by simp
    have d1: "2 * (n div 2) \<le> n" and d2: "n < 2 * (n div 2 + 1)" by simp_all
    from hi have "n div 2 + 1 \<le> 2 * 2 ^ k" by simp
    with lo d1 d2 show ?thesis
      unfolding nk by simp
  qed
qed

lemma ilog2_bounds:
  assumes "1 \<le> n"
  shows "pow2 (ilog2 n) \<le> of_int n \<and> of_int n < pow2 (ilog2 n + 1)"
proof -
  define k where "k = nat (ilog2 n)"
  from ilog2_int_bounds [OF assms] have b: "2 ^ k \<le> n" "n < 2 * 2 ^ k"
    by (simp_all add: k_def)
  have p: "pow2 (ilog2 n) = of_int (2 ^ k)" "pow2 (ilog2 n + 1) = of_int (2 * 2 ^ k)"
    using ilog2_nonneg [of n] by (simp_all add: pow2_add pow2_1) (simp_all add: pow2_def k_def)
  show ?thesis
    unfolding p using b by (simp only: of_int_le_iff of_int_less_iff)
qed

lemma exponent_bounds:
  assumes "0 < x"
  shows "pow2 (exponent x) \<le> x \<and> x < pow2 (exponent x + 1)"
proof -
  obtain a b where q: "quotient_of x = (a, b)" by (cases "quotient_of x")
  then have b: "0 < b" and x: "x = of_int a / of_int b"
    using quotient_of_denom_pos quotient_of_div by blast+
  from assms x b have a: "0 < a"
    by (simp add: zero_less_divide_iff)
  let ?e = "ilog2 a - ilog2 b"
  from ilog2_bounds [of a] a have
    al: "pow2 (ilog2 a) \<le> of_int a" and ah: "of_int a < pow2 (ilog2 a + 1)" by simp_all
  from ilog2_bounds [of b] b have
    bl: "pow2 (ilog2 b) \<le> of_int b" and bh: "of_int b < pow2 (ilog2 b + 1)" by simp_all
  have bpos: "(0::rat) < of_int b" using b by simp
  have up: "x < pow2 (?e + 1)"
  proof -
    have "x \<le> of_int a / pow2 (ilog2 b)"
      unfolding x using a bl pow2_pos [of "ilog2 b"] by (intro divide_left_mono) (simp_all add: bpos)
    also have "\<dots> < pow2 (ilog2 a + 1) / pow2 (ilog2 b)"
      using ah pow2_pos [of "ilog2 b"] by (simp add: divide_strict_right_mono)
    also have "\<dots> = pow2 (?e + 1)"
      by (simp add: pow2_add pow2_diff)
    finally show ?thesis .
  qed
  have low: "pow2 (?e - 1) \<le> x"
  proof -
    have "pow2 (?e - 1) = pow2 (ilog2 a) / pow2 (ilog2 b + 1)"
      by (simp add: pow2_add pow2_diff pow2_1)
    also have "\<dots> \<le> of_int a / pow2 (ilog2 b + 1)"
      using al pow2_pos [of "ilog2 b + 1"] by (simp add: divide_right_mono)
    also have "\<dots> \<le> x"
      unfolding x using a bh bpos by (intro divide_left_mono) simp_all
    finally show ?thesis .
  qed
  show ?thesis
  proof (cases "pow2 ?e \<le> x")
    case True
    then have "exponent x = ?e" by (simp add: exponent_def q)
    with True up show ?thesis by simp
  next
    case False
    then have "exponent x = ?e - 1" by (simp add: exponent_def q)
    with False low show ?thesis by simp
  qed
qed

lemma round_even_err: "\<bar>of_int (round_even q) - q\<bar> \<le> 1 / 2"
proof -
  have "of_int \<lfloor>q\<rfloor> \<le> q" "q < of_int \<lfloor>q\<rfloor> + 1" by linarith+
  then show ?thesis
    by (auto simp: round_even_def Let_def)
qed

lemma to_float_err:
  assumes "0 < x"
  shows "\<bar>to_float x - x\<bar> \<le> x / 16777216"
proof -
  let ?e = "exponent x"
  let ?ulp = "pow2 (?e - 23)"
  have up: "0 < ?ulp" by (rule pow2_pos)
  have tf: "to_float x = of_int (round_even (x / ?ulp)) * ?ulp"
    using assms by (simp add: to_float_def Let_def)
  have "\<bar>to_float x - x\<bar> = \<bar>of_int (round_even (x / ?ulp)) - x / ?ulp\<bar> * ?ulp"
  proof -
    have "to_float x - x = (of_int (round_even (x / ?ulp)) - x / ?ulp) * ?ulp"
      unfolding tf using up by (simp add: field_simps)
    then show ?thesis
      using up by (simp add: abs_mult)
  qed
  also have "\<dots> \<le> 1 / 2 * ?ulp"
    using round_even_err [of "x / ?ulp"] up by (intro mult_right_mono) simp_all
  also have "\<dots> = pow2 ?e / 16777216"
  proof -
    have "pow2 ?e = pow2 (?e - 23) * pow2 23"
      by (simp add: pow2_add [symmetric])
    then show ?thesis by (simp add: pow2_def)
  qed
  also have "\<dots> \<le> x / 16777216"
    using exponent_bounds [OF assms] by simp
  finally show ?thesis .
qed

lemma to_float_near:
  assumes "0 \<le> x"
  shows "x * (16777215 / 16777216) \<le> to_float x \<and> to_float x \<le> x * (16777217 / 16777216)"
proof (cases "x = 0")
  case True
  then show ?thesis by (simp add: to_float_def)
next
  case False
  with assms have "0 < x" by simp
  from to_float_err [OF this] show ?thesis
    by linarith
qed

lemma to_float_100: "to_float 100 = 100"
  by code_simp

lemma percentage_near:
  assumes p: "0 \<le> p" "p \<le> m" and m: "0 < m"
  shows "\<exists>v. percentage p m = Some v
           \<and> \<lfloor>100 * of_int p / of_int m - (1 / 40000 :: rat)\<rfloor> \<le> v
           \<and> v \<le> \<lfloor>100 * of_int p / of_int m + (1 / 40000 :: rat)\<rfloor>"
proof -
  define P M :: rat where "P = of_int p" and "M = of_int m"
  define c0 c1 :: rat where "c0 = 16777215 / 16777216" and "c1 = 16777217 / 16777216"
  define fp fm where "fp = to_float P" and "fm = to_float M"
  define q where "q = to_float (fp / fm)"
  define y where "y = to_float (q * 100)"
  define x where "x = 100 * P / M"
  have P: "0 \<le> P" "P \<le> M" and M: "0 < M"
    using p m by (simp_all add: P_def M_def)
  have x: "0 \<le> x" "x \<le> 100"
    using P M by (simp_all add: x_def pos_divide_le_eq)
  have fp: "P * c0 \<le> fp" "fp \<le> P * c1"
    using to_float_near [OF P(1)] by (simp_all add: fp_def c0_def c1_def)
  have fm: "M * c0 \<le> fm" "fm \<le> M * c1"
    using to_float_near [of M] M by (simp_all add: fm_def c0_def c1_def)
  have fp0: "0 \<le> fp" using fp(1) P(1) by (simp add: c0_def)
  have fm0: "0 < fm"
  proof -
    have "0 < M * c0" using M by (simp add: c0_def)
    with fm(1) show ?thesis by simp
  qed
  have d0: "0 \<le> fp / fm" using fp0 fm0 by simp
  have dhi: "fp / fm \<le> (P * c1) / (M * c0)"
    using fp(2) fm(1) fp0 M by (intro frac_le) (simp_all add: c0_def)
  have dlo: "(P * c0) / (M * c1) \<le> fp / fm"
    using fp(1) fm(2) fm0 P(1) by (intro frac_le) (simp_all add: c0_def)
  have q: "fp / fm * c0 \<le> q" "q \<le> fp / fm * c1"
    using to_float_near [OF d0] by (simp_all add: q_def c0_def c1_def)
  have q0: "0 \<le> q"
  proof -
    have "0 \<le> fp / fm * c0" using d0 by (simp add: c0_def)
    with q(1) show ?thesis by simp
  qed
  have y: "q * 100 * c0 \<le> y" "y \<le> q * 100 * c1"
    using to_float_near [of "q * 100"] q0 by (simp_all add: y_def c0_def c1_def)
  have yhi: "y \<le> x * (c1 * c1 * c1 / c0)"
  proof -
    have "q \<le> (P * c1) / (M * c0) * c1"
      using q(2) dhi by (simp add: c1_def mult_right_mono)
    then have "q * 100 * c1 \<le> (P * c1) / (M * c0) * c1 * 100 * c1"
      by (simp add: c1_def)
    also have "\<dots> = x * (c1 * c1 * c1 / c0)"
      by (simp add: x_def c0_def)
    finally show ?thesis using y(2) by simp
  qed
  have ylo: "x * (c0 * c0 * c0 / c1) \<le> y"
  proof -
    have "(P * c0) / (M * c1) * c0 \<le> q"
      using q(1) dlo by (simp add: c0_def mult_right_mono)
    then have "(P * c0) / (M * c1) * c0 * 100 * c0 \<le> q * 100 * c0"
      by (simp add: c0_def)
    moreover have "(P * c0) / (M * c1) * c0 * 100 * c0 = x * (c0 * c0 * c0 / c1)"
      by (simp add: x_def c1_def)
    ultimately show ?thesis using y(1) by simp
  qed
  have k1: "c1 * c1 * c1 / c0 \<le> 1 + 1 / 4000000" and k0: "1 - 1 / 4000000 \<le> c0 * c0 * c0 / c1"
    by (simp_all add: c0_def c1_def)
  have hi: "y \<le> x + 1 / 40000"
  proof -
    have "x * (c1 * c1 * c1 / c0) \<le> x * (1 + 1 / 4000000)"
      using k1 x(1) by (rule mult_left_mono)
    moreover have "x * (1 + 1 / 4000000) = x + x / 4000000"
      by (simp add: algebra_simps)
    moreover have "x / 4000000 \<le> 1 / 40000"
      using x(2) by simp
    ultimately show ?thesis using yhi by linarith
  qed
  have lo: "x - 1 / 40000 \<le> y"
  proof -
    have "x * (1 - 1 / 4000000) \<le> x * (c0 * c0 * c0 / c1)"
      using k0 x(1) by (rule mult_left_mono)
    moreover have "x * (1 - 1 / 4000000) = x - x / 4000000"
      by (simp add: algebra_simps)
    moreover have "x / 4000000 \<le> 1 / 40000"
      using x(2) by simp
    ultimately show ?thesis using ylo by linarith
  qed
  have y0: "0 \<le> y"
  proof -
    have "0 \<le> q * 100 * c0" using q0 by (simp add: c0_def)
    from this y(1) show ?thesis by (rule order_trans)
  qed
  have fl: "\<lfloor>x - 1 / 40000\<rfloor> \<le> \<lfloor>y\<rfloor>" "\<lfloor>y\<rfloor> \<le> \<lfloor>x + 1 / 40000\<rfloor>"
    using lo hi by (simp_all add: floor_mono)
  have rng: "0 \<le> \<lfloor>y\<rfloor>" "\<lfloor>y\<rfloor> \<le> 100"
  proof -
    show "0 \<le> \<lfloor>y\<rfloor>" using y0 by simp
    have "y < 101" using hi x(2) by simp
    then have "\<lfloor>y\<rfloor> < 101" by (simp add: floor_less_iff)
    then show "\<lfloor>y\<rfloor> \<le> 100" by simp
  qed
  have "percentage p m = Some \<lfloor>y\<rfloor>"
    using y0 rng
    by (simp add: percentage_def float_to_int_def to_float_100 y_def q_def fp_def fm_def
        P_def M_def Let_def)
  then show ?thesis
    using fl by (simp add: x_def P_def M_def)
qed

subsection \<open>Snapshot refreshes\<close>

lemma active_tasks_emit [simp]: "active_tasks (emit sg s) = active_tasks s"
  by (simp add: emit_def)

lemma active_tasks_set_device [simp]: "active_tasks (set_device row info s) = active_tasks s"
  by (simp add: set_device_def)

lemma valid_index_rowCount: "rowCount s' = rowCount s \<Longrightarrow> valid_index s' = valid_index s"
  by (intro ext) (simp add: valid_index_def split: option.splits)

lemma tracked_on_cong: "active_tasks s' = active_tasks s \<Longrightarrow> tracked_on s' r t = tracked_on s r t"
  by (simp add: tracked_on_def)

lemma announced_emit:
  "n \<le> length (signals s) \<Longrightarrow>
     announced n r (emit sg s) = (announced n r s \<or> sg = dataChanged (Some (r, 0)) (Some (r, 0)))"
  by (auto simp: announced_def)

lemma announced_set_device [simp]: "announced n r (set_device row info s) = announced n r s"
  by (simp add: announced_def)

lemma row_progress_emit [simp]: "row_progress (emit sg s) r = row_progress s r"
  by (simp add: row_progress_def)

lemma row_progress_set_device_same:
  "device_at s r = Some info \<Longrightarrow> row_progress (set_device r info' s) r = Some (task_percentage info')"
  by (simp add: row_progress_def device_at_set_device)

lemma row_progress_set_device_other:
  "r' \<noteq> r \<Longrightarrow> 0 \<le> r' \<Longrightarrow> row_progress (set_device r' info' s) r = row_progress s r"
  by (simp add: row_progress_def device_at_set_device_other)

lemma valid_index_device_at:
  "valid_index s (Some (r, c)) \<Longrightarrow> \<exists>info. device_at s r = Some info"
  by (simp add: valid_index_def device_at_def)

lemma handles_valid_lookup:
  "handles_valid s \<Longrightarrow> map_of (active_tasks s) k = Some idx \<Longrightarrow> valid_index s idx"
  by (force simp: handles_valid_def list_all_iff dest: map_of_SomeD)

lemma TasksChanged_tasks_step:
  assumes "map_of (active_tasks s) (task_id task) = Some (Some (r', c'))"
    and "device_at s r' = Some info" and "percent_of task = Some pct"
  shows "TasksChanged_tasks (task # tasks) fin s =
     TasksChanged_tasks tasks (removeAll (Some (r', c')) fin)
       (emit (dataChanged (Some (r', c')) (Some (r', c')))
          (set_device r' (info\<lparr>task_percentage := pct\<rparr>) s))"
  using assms by (auto simp: percent_of_def Let_def split: if_splits)

lemma TasksChanged_tasks_skip:
  assumes "map_of (active_tasks s) (task_id task) = None \<or> map_of (active_tasks s) (task_id task) = Some None"
  shows "TasksChanged_tasks (task # tasks) fin s = TasksChanged_tasks tasks fin s"
  using assms by auto

lemma TasksChanged_tasks_row:
  assumes "handles_valid s" and "\<forall>t \<in> set tasks. percent_of t \<noteq> None"
    and "list_all (valid_index s) fin"
    and "\<forall>t \<in> set tasks. tracked_on s r t \<longrightarrow> percent_of t = Some v"
    and "(row_progress s r = Some v \<and> Some (r, 0) \<notin> set fin \<and> announced n r s)
         \<or> (\<exists>t \<in> set tasks. tracked_on s r t)"
    and "n \<le> length (signals s)"
  shows "\<exists>fin' s'. TasksChanged_tasks tasks fin s = Some (fin', s')
     \<and> active_tasks s' = active_tasks s \<and> rowCount s' = rowCount s
     \<and> list_all (valid_index s') fin'
     \<and> row_progress s' r = Some v \<and> Some (r, 0) \<notin> set fin' \<and> announced n r s'"
  using assms
proof (induction tasks arbitrary: s fin)
  case Nil
  then show ?case by simp
next
  case (Cons task tasks)
  show ?case
  proof (cases "map_of (active_tasks s) (task_id task) = None \<or> map_of (active_tasks s) (task_id task) = Some None")
    case True
    then have nt: "\<not> tracked_on s r task"
      by (auto simp: tracked_on_def)
    have "\<exists>fin' s'. TasksChanged_tasks tasks fin s = Some (fin', s')
     \<and> active_tasks s' = active_tasks s \<and> rowCount s' = rowCount s
     \<and> list_all (valid_index s') fin'
     \<and> row_progress s' r = Some v \<and> Some (r, 0) \<notin> set fin' \<and> announced n r s'"
      using Cons.prems nt by (intro Cons.IH) auto
    then show ?thesis
      unfolding TasksChanged_tasks_skip [OF True] .
  next
    case False
    then obtain r' c' where look: "map_of (active_tasks s) (task_id task) = Some (Some (r', c'))"
      by (cases "map_of (active_tasks s) (task_id task)") auto
    from handles_valid_lookup [OF Cons.prems(1) look] have
      v': "0 \<le> r'" "r' < rowCount s" "c' = 0"
      by (simp_all add: valid_index_def)
    then obtain info where at: "device_at s r' = Some info"
      by (auto simp: device_at_def)
    from Cons.prems(2) obtain pct where pct: "percent_of task = Some pct"
      by auto
    let ?s2 = "emit (dataChanged (Some (r', c')) (Some (r', c')))
          (set_device r' (info\<lparr>task_percentage := pct\<rparr>) s)"
    let ?fin2 = "removeAll (Some (r', c')) fin"
    have a2: "active_tasks ?s2 = active_tasks s" by simp
    have rc2: "rowCount ?s2 = rowCount s" by simp
    have hv2: "handles_valid ?s2"
      using Cons.prems(1) by (simp add: handles_valid_def valid_index_rowCount [OF rc2])
    have fv2: "list_all (valid_index ?s2) ?fin2"
      using Cons.prems(3) by (simp add: valid_index_rowCount [OF rc2] list_all_iff)
    have tr2: "\<forall>t \<in> set tasks. tracked_on ?s2 r t \<longrightarrow> percent_of t = Some v"
      using Cons.prems(4) by (simp add: tracked_on_cong [OF a2])
    have n2: "n \<le> length (signals ?s2)"
      using Cons.prems(6) by simp
    have q2: "(row_progress ?s2 r = Some v \<and> Some (r, 0) \<notin> set ?fin2 \<and> announced n r ?s2)
         \<or> (\<exists>t \<in> set tasks. tracked_on ?s2 r t)"
    proof (cases "r' = r")
      case True
      then have "tracked_on s r task"
        using look v' by (simp add: tracked_on_def)
      with Cons.prems(4) pct have "pct = v" by simp
      then show ?thesis
        using True at v' Cons.prems(6)
        by (simp add: row_progress_set_device_same announced_emit)
    next
      case False
      then have nt: "\<not> tracked_on s r task"
        using look by (simp add: tracked_on_def)
      from Cons.prems(5) show ?thesis
      proof
        assume "row_progress s r = Some v \<and> Some (r, 0) \<notin> set fin \<and> announced n r s"
        then show ?thesis
          using False v' Cons.prems(6) by (simp add: row_progress_set_device_other announced_emit)
      next
        assume "\<exists>t \<in> set (task # tasks). tracked_on s r t"
        with nt show ?thesis by (auto simp: tracked_on_cong [OF a2])
      qed
    qed
    from Cons.IH [OF hv2 _ fv2 tr2 q2 n2] Cons.prems(2)
    have "\<exists>fin' s'. TasksChanged_tasks tasks ?fin2 ?s2 = Some (fin', s')
     \<and> active_tasks s' = active_tasks ?s2 \<and> rowCount s' = rowCount ?s2
     \<and> list_all (valid_index s') fin'
     \<and> row_progress s' r = Some v \<and> Some (r, 0) \<notin> set fin' \<and> announced n r s'"
      by simp
    then show ?thesis
      unfolding TasksChanged_tasks_step [OF look at pct] a2 rc2 .
  qed
qed

lemma TasksChanged_tasks_other:
  assumes "handles_valid s" and "\<forall>t \<in> set tasks. percent_of t \<noteq> None"
    and "list_all (valid_index s) fin"
    and "\<forall>t \<in> set tasks. \<not> tracked_on s r t"
    and "Some (r, 0) \<in> set fin"
  shows "\<exists>fin' s'. TasksChanged_tasks tasks fin s = Some (fin', s')
     \<and> active_tasks s' = active_tasks s \<and> rowCount s' = rowCount s
     \<and> list_all (valid_index s') fin' \<and> length (signals s) \<le> length (signals s')
     \<and> Some (r, 0) \<in> set fin'"
  using assms
proof (induction tasks arbitrary: s fin)
  case Nil
  then show ?case by simp
next
  case (Cons task tasks)
  show ?case
  proof (cases "map_of (active_tasks s) (task_id task) = None \<or> map_of (active_tasks s) (task_id task) = Some None")
    case True
    have "\<exists>fin' s'. TasksChanged_tasks tasks fin s = Some (fin', s')
     \<and> active_tasks s' = active_tasks s \<and> rowCount s' = rowCount s
     \<and> list_all (valid_index s') fin' \<and> length (signals s) \<le> length (signals s')
     \<and> Some (r, 0) \<in> set fin'"
      using Cons.prems by (intro Cons.IH) auto
    then show ?thesis
      unfolding TasksChanged_tasks_skip [OF True] .
  next
    case False
    then obtain r' c' where look: "map_of (active_tasks s) (task_id task) = Some (Some (r', c'))"
      by (cases "map_of (active_tasks s) (task_id task)") auto
    from handles_valid_lookup [OF Cons.prems(1) look] have
      v': "0 \<le> r'" "r' < rowCount s" "c' = 0"
      by (simp_all add: valid_index_def)
    then obtain info where at: "device_at s r' = Some info"
      by (auto simp: device_at_def)
    from Cons.prems(2) obtain pct where pct: "percent_of task = Some pct"
      by auto
    from Cons.prems(4) look v' have ne: "r' \<noteq> r"
      by (auto simp: tracked_on_def)
    let ?s2 = "emit (dataChanged (Some (r', c')) (Some (r', c')))
          (set_device r' (info\<lparr>task_percentage := pct\<rparr>) s)"
    let ?fin2 = "removeAll (Some (r', c')) fin"
    have a2: "active_tasks ?s2 = active_tasks s" by simp
    have rc2: "rowCount ?s2 = rowCount s" by simp
    have hv2: "handles_valid ?s2"
      using Cons.prems(1) by (simp add: handles_valid_def valid_index_rowCount [OF rc2])
    have fv2: "list_all (valid_index ?s2) ?fin2"
      using Cons.prems(3) by (simp add: valid_index_rowCount [OF rc2] list_all_iff)
    have tr2: "\<forall>t \<in> set tasks. \<not> tracked_on ?s2 r t"
      using Cons.prems(4) by (simp add: tracked_on_cong [OF a2])
    have in2: "Some (r, 0) \<in> set ?fin2"
      using Cons.prems(5) ne by simp
    from Cons.IH [OF hv2 _ fv2 tr2 in2] Cons.prems(2)
    have "\<exists>fin' s'. TasksChanged_tasks tasks ?fin2 ?s2 = Some (fin', s')
     \<and> active_tasks s' = active_tasks ?s2 \<and> rowCount s' = rowCount ?s2
     \<and> list_all (valid_index s') fin' \<and> length (signals ?s2) \<le> length (signals s')
     \<and> Some (r, 0) \<in> set fin'"
      by simp
    then show ?thesis
      unfolding TasksChanged_tasks_step [OF look at pct] a2 rc2 by auto
  qed
qed

lemma TasksChanged_finished_row:
  assumes "list_all (valid_index s) fin" and "n \<le> length (signals s)"
  shows "\<exists>s'. TasksChanged_finished fin s = Some s'
     \<and> active_tasks s' = active_tasks s \<and> rowCount s' = rowCount s
     \<and> (Some (r, 0) \<notin> set fin \<longrightarrow> row_progress s' r = row_progress s r)
     \<and> (Some (r, 0) \<in> set fin \<longrightarrow> row_progress s' r = Some (- 1) \<and> announced n r s')
     \<and> (announced n r s \<longrightarrow> announced n r s')"
  using assms
proof (induction fin s rule: TasksChanged_finished.induct)
  case (1 s)
  then show ?case by simp
next
  case (2 finished_tasks s)
  then show ?case by simp
next
  case (3 r' c' finished_tasks s)
  from "3.prems"(1) have v': "0 \<le> r'" "r' < rowCount s" "c' = 0"
    by (simp_all add: valid_index_def)
  then obtain info where at: "device_at s r' = Some info"
    by (auto simp: device_at_def)
  let ?s1 = "set_device r' (info\<lparr>task_percentage := - 1\<rparr>) s"
  let ?s2 = "emit (dataChanged (Some (r', c')) (Some (r', c'))) ?s1"
  have step: "TasksChanged_finished (Some (r', c') # finished_tasks) s = TasksChanged_finished finished_tasks ?s2"
    using at by (simp add: Let_def)
  have rc2: "rowCount ?s2 = rowCount s" by simp
  have fv2: "list_all (valid_index ?s2) finished_tasks"
    using "3.prems"(1) by (simp add: valid_index_rowCount [OF rc2])
  have n2: "n \<le> length (signals ?s2)"
    using "3.prems"(2) by simp
  from "3.IH" [OF at refl fv2 n2] obtain s' where
    ih: "TasksChanged_finished finished_tasks ?s2 = Some s'"
        "active_tasks s' = active_tasks ?s2" "rowCount s' = rowCount ?s2"
        "Some (r, 0) \<notin> set finished_tasks \<longrightarrow> row_progress s' r = row_progress ?s2 r"
        "Some (r, 0) \<in> set finished_tasks \<longrightarrow> row_progress s' r = Some (- 1) \<and> announced n r s'"
        "announced n r ?s2 \<longrightarrow> announced n r s'"
    by blast
  have p2: "row_progress ?s2 r = (if r' = r then Some (- 1) else row_progress s r)"
    using at v' row_progress_set_device_same [OF at, of "info\<lparr>task_percentage := - 1\<rparr>"]
    by (auto simp: row_progress_set_device_other)
  have an2: "announced n r ?s2 = (announced n r s \<or> r' = r)"
    using "3.prems"(2) v' by (simp add: announced_emit)
  show ?case
    unfolding step using ih p2 an2 v'
    by (intro exI [of _ s']) auto
qed

lemma map_of_qmap_insert [simp]: "map_of (qmap_insert k v m) k = Some v"
  by (induction m) auto

lemma in_qmap_insert: "(a, b) \<in> set (qmap_insert k v m) \<Longrightarrow> b = v \<or> (a, b) \<in> set m"
  by (induction m) (auto split: if_splits)

lemma set_qmap_insert: "snd ` set (qmap_insert k v m) \<subseteq> insert v (snd ` set m)"
  using in_qmap_insert [of _ _ k v m] by force

lemma find_device_found:
  "find_device ds p i = Some r \<Longrightarrow> i \<le> r \<and> nat (r - i) < length ds"
  using find_device_range [of ds p i r] by auto

lemma DeviceTaskStarted_row:
  assumes "find_device (devices s) p 0 = Some r"
  shows "map_of (active_tasks (DeviceTaskStarted (Some p) ident s)) ident = Some (Some (r, 0))
     \<and> row_progress (DeviceTaskStarted (Some p) ident s) r = Some 0
     \<and> signals (DeviceTaskStarted (Some p) ident s) = signals s @ [dataChanged (Some (r, 0)) (Some (r, 0))]
     \<and> rowCount (DeviceTaskStarted (Some p) ident s) = rowCount s
     \<and> (handles_valid s \<longrightarrow> handles_valid (DeviceTaskStarted (Some p) ident s))"
proof -
  from find_device_range [OF assms] have r: "0 \<le> r" "r < rowCount s"
    by (simp_all add: rowCount_def)
  then have idx: "index s r 0 = Some (r, 0)"
    by (simp add: index_def)
  let ?s1 = "s\<lparr>active_tasks := qmap_insert ident (Some (r, 0)) (active_tasks s)\<rparr>"
  let ?s2 = "set_device r ((devices ?s1 ! nat r)\<lparr>task_percentage := 0\<rparr>) ?s1"
  have rc1: "rowCount ?s1 = rowCount s"
    by (simp add: rowCount_def)
  have res: "DeviceTaskStarted (Some p) ident s = emit (dataChanged (Some (r, 0)) (Some (r, 0))) ?s2"
    using assms idx r by (simp add: DeviceTaskStarted_def Let_def index_def rowCount_def)
  have at1: "device_at ?s1 r = Some (devices ?s1 ! nat r)"
    using r by (simp add: device_at_def rowCount_def)
  have hv: "handles_valid (emit (dataChanged (Some (r, 0)) (Some (r, 0))) ?s2)" if "handles_valid s"
  proof -
    have "valid_index s (Some (r, 0))"
      using r by (simp add: valid_index_def)
    with that in_qmap_insert [of _ _ ident "Some (r, 0)" "active_tasks s"]
    have "\<forall>x \<in> snd ` set (qmap_insert ident (Some (r, 0)) (active_tasks s)). valid_index s x"
      by (fastforce simp: handles_valid_def list_all_iff)
    moreover have "valid_index (emit (dataChanged (Some (r, 0)) (Some (r, 0))) ?s2) = valid_index s"
      by (rule valid_index_rowCount) (simp add: rowCount_def)
    ultimately show ?thesis
      by (simp add: handles_valid_def list_all_iff)
  qed
  have m: "map_of (active_tasks (emit (dataChanged (Some (r, 0)) (Some (r, 0))) ?s2)) ident = Some (Some (r, 0))"
    by simp
  have pr: "row_progress (emit (dataChanged (Some (r, 0)) (Some (r, 0))) ?s2) r = Some 0"
    using row_progress_set_device_same [OF at1, of "(devices ?s1 ! nat r)\<lparr>task_percentage := 0\<rparr>"]
    by simp
  have sg: "signals (emit (dataChanged (Some (r, 0)) (Some (r, 0))) ?s2)
      = signals s @ [dataChanged (Some (r, 0)) (Some (r, 0))]"
    by simp
  have rc: "rowCount (emit (dataChanged (Some (r, 0)) (Some (r, 0))) ?s2) = rowCount s"
    using rc1 by simp
  show ?thesis
    unfolding res using m pr sg rc hv by blast
qed

lemma percentage_examples:
  "percentage 0 10 = Some 0" "percentage 5 10 = Some 50" "percentage 10 10 = Some 100"
  by code_simp+

lemma percentage_truncated:
  "percentage 53 100 = Some 52" "percentage 1 2 = Some 50" "percentage 3 4 = Some 75"
  by code_simp+

lemma announced_length: "announced n r s \<Longrightarrow> n \<le> length (signals s)"
  by (cases "n \<le> length (signals s)") (auto simp: announced_def)

lemma TasksChanged_tasks_append:
  "TasksChanged_tasks (xs @ ys) fin s =
     (case TasksChanged_tasks xs fin s of
        None \<Rightarrow> None
      | Some (fin1, s1) \<Rightarrow> TasksChanged_tasks ys fin1 s1)"
  by (induction xs arbitrary: fin s) (auto simp: Let_def split: option.splits)

lemma TasksChanged_tasks_total:
  assumes "handles_valid s" and "\<forall>t \<in> set tasks. percent_of t \<noteq> None"
    and "list_all (valid_index s) fin"
  shows "\<exists>fin' s'. TasksChanged_tasks tasks fin s = Some (fin', s')
     \<and> active_tasks s' = active_tasks s \<and> rowCount s' = rowCount s
     \<and> list_all (valid_index s') fin' \<and> length (signals s) \<le> length (signals s')"
  using assms
proof (induction tasks arbitrary: s fin)
  case Nil
  then show ?case by simp
next
  case (Cons task tasks)
  show ?case
  proof (cases "map_of (active_tasks s) (task_id task) = None \<or> map_of (active_tasks s) (task_id task) = Some None")
    case True
    have "\<exists>fin' s'. TasksChanged_tasks tasks fin s = Some (fin', s')
     \<and> active_tasks s' = active_tasks s \<and> rowCount s' = rowCount s
     \<and> list_all (valid_index s') fin' \<and> length (signals s) \<le> length (signals s')"
      using Cons.prems by (intro Cons.IH) auto
    then show ?thesis
      unfolding TasksChanged_tasks_skip [OF True] .
  next
    case False
    then obtain r' c' where look: "map_of (active_tasks s) (task_id task) = Some (Some (r', c'))"
      by (cases "map_of (active_tasks s) (task_id task)") auto
    from handles_valid_lookup [OF Cons.prems(1) look] have
      v': "0 \<le> r'" "r' < rowCount s" "c' = 0"
      by (simp_all add: valid_index_def)
    then obtain info where at: "device_at s r' = Some info"
      by (auto simp: device_at_def)
    from Cons.prems(2) obtain pct where pct: "percent_of task = Some pct"
      by auto
    let ?s2 = "emit (dataChanged (Some (r', c')) (Some (r', c')))
          (set_device r' (info\<lparr>task_percentage := pct\<rparr>) s)"
    let ?fin2 = "removeAll (Some (r', c')) fin"
    have a2: "active_tasks ?s2 = active_tasks s" by simp
    have rc2: "rowCount ?s2 = rowCount s" by simp
    have hv2: "handles_valid ?s2"
      using Cons.prems(1) by (simp add: handles_valid_def valid_index_rowCount [OF rc2])
    have fv2: "list_all (valid_index ?s2) ?fin2"
      using Cons.prems(3) by (simp add: valid_index_rowCount [OF rc2] list_all_iff)
    from Cons.IH [OF hv2 _ fv2] Cons.prems(2)
    have "\<exists>fin' s'. TasksChanged_tasks tasks ?fin2 ?s2 = Some (fin', s')
     \<and> active_tasks s' = active_tasks ?s2 \<and> rowCount s' = rowCount ?s2
     \<and> list_all (valid_index s') fin' \<and> length (signals ?s2) \<le> length (signals s')"
      by simp
    then show ?thesis
      unfolding TasksChanged_tasks_step [OF look at pct] a2 rc2 by auto
  qed
qed

lemma TasksChanged_row_last:
  assumes hv: "handles_valid s"
    and conv: "\<forall>t \<in> set tasks. percent_of t \<noteq> None"
    and split: "tasks = pre @ t # post"
    and hit: "tracked_on s r t"
    and later: "\<forall>t' \<in> set post. \<not> tracked_on s r t'"
  shows "\<exists>s'. TasksChanged tasks s = Some s'
           \<and> active_tasks s' = active_tasks s \<and> rowCount s' = rowCount s
           \<and> announced (length (signals s)) r s'
           \<and> row_progress s' r = percent_of t"
proof -
  let ?fin = "map snd (active_tasks s)"
  let ?n = "length (signals s)"
  have fv: "list_all (valid_index s) ?fin"
    using hv by (simp add: handles_valid_def)
  have conv_pre: "\<forall>t \<in> set pre. percent_of t \<noteq> None"
    and conv_rest: "\<forall>t' \<in> set (t # post). percent_of t' \<noteq> None"
    using conv split by auto
  from conv_rest obtain v where v: "percent_of t = Some v" by auto
  from TasksChanged_tasks_total [OF hv conv_pre fv]
  obtain fin1 s1 where
    l0: "TasksChanged_tasks pre ?fin s = Some (fin1, s1)"
        "active_tasks s1 = active_tasks s" "rowCount s1 = rowCount s"
        "list_all (valid_index s1) fin1" "?n \<le> length (signals s1)"
    by blast
  have hv1: "handles_valid s1"
    using hv l0(2) by (simp add: handles_valid_def valid_index_rowCount [OF l0(3)])
  have hit1: "tracked_on s1 r t"
    using hit by (simp add: tracked_on_cong [OF l0(2)])
  have all: "\<forall>t' \<in> set (t # post). tracked_on s1 r t' \<longrightarrow> percent_of t' = Some v"
    using later v by (simp add: tracked_on_cong [OF l0(2)])
  have q: "(row_progress s1 r = Some v \<and> Some (r, 0) \<notin> set fin1 \<and> announced ?n r s1)
         \<or> (\<exists>t' \<in> set (t # post). tracked_on s1 r t')"
    using hit1 by simp
  from TasksChanged_tasks_row [OF hv1 conv_rest l0(4) all q l0(5)]
  obtain fin' s2 where
    l1: "TasksChanged_tasks (t # post) fin1 s1 = Some (fin', s2)"
        "active_tasks s2 = active_tasks s1" "rowCount s2 = rowCount s1"
        "list_all (valid_index s2) fin'" "row_progress s2 r = Some v"
        "Some (r, 0) \<notin> set fin'" "announced ?n r s2"
    by blast
  have loop: "TasksChanged_tasks tasks ?fin s = Some (fin', s2)"
    unfolding split TasksChanged_tasks_append l0(1) using l1(1) by simp
  from TasksChanged_finished_row [OF l1(4) announced_length [OF l1(7)], of r]
  obtain s' where
    l2: "TasksChanged_finished fin' s2 = Some s'"
        "active_tasks s' = active_tasks s2" "rowCount s' = rowCount s2"
        "Some (r, 0) \<notin> set fin' \<longrightarrow> row_progress s' r = row_progress s2 r"
        "announced ?n r s2 \<longrightarrow> announced ?n r s'"
    by blast
  have res: "TasksChanged tasks s = Some s'"
    using loop l2(1) by (simp add: TasksChanged_def)
  have at': "active_tasks s' = active_tasks s" and rc': "rowCount s' = rowCount s"
    using l0(2,3) l1(2,3) l2(2,3) by simp_all
  have an: "announced ?n r s'"
    using l1(7) l2(5) by simp
  have pv: "row_progress s' r = percent_of t"
    using l1(5,6) l2(4) v by simp
  show ?thesis
    using res at' rc' an pv by (intro exI [of _ s'] conjI)
qed

lemma TasksChanged_row_none:
  assumes hv: "handles_valid s"
    and tr: "map_of (active_tasks s) ident = Some (Some (r, 0))"
    and conv: "\<forall>t \<in> set tasks. percent_of t \<noteq> None"
    and none: "\<forall>t \<in> set tasks. \<not> tracked_on s r t"
  shows "\<exists>s'. TasksChanged tasks s = Some s'
           \<and> active_tasks s' = active_tasks s \<and> rowCount s' = rowCount s
           \<and> announced (length (signals s)) r s'
           \<and> row_progress s' r = Some (- 1)
           \<and> data env (Some (r, 0)) Role_UpdatingPercentage s' = Some (QVariant_null, s')"
proof -
  let ?fin = "map snd (active_tasks s)"
  let ?n = "length (signals s)"
  have fv: "list_all (valid_index s) ?fin"
    using hv by (simp add: handles_valid_def)
  have in_fin: "Some (r, 0) \<in> set ?fin"
    using map_of_SomeD [OF tr] by force
  from TasksChanged_tasks_other [OF hv conv fv none in_fin]
  obtain fin' s1 where
    l1: "TasksChanged_tasks tasks ?fin s = Some (fin', s1)"
        "active_tasks s1 = active_tasks s" "rowCount s1 = rowCount s"
        "list_all (valid_index s1) fin'" "?n \<le> length (signals s1)"
        "Some (r, 0) \<in> set fin'"
    by blast
  from TasksChanged_finished_row [OF l1(4,5), of r]
  obtain s' where
    l2: "TasksChanged_finished fin' s1 = Some s'"
        "active_tasks s' = active_tasks s1" "rowCount s' = rowCount s1"
        "Some (r, 0) \<in> set fin' \<longrightarrow> row_progress s' r = Some (- 1) \<and> announced ?n r s'"
    by blast
  have res: "TasksChanged tasks s = Some s'"
    using l1(1) l2(1) by (simp add: TasksChanged_def)
  have at': "active_tasks s' = active_tasks s" and rc': "rowCount s' = rowCount s"
    using l1(2,3) l2(2,3) by simp_all
  have p: "row_progress s' r = Some (- 1)" and an: "announced ?n r s'"
    using l1(6) l2(4) by simp_all
  from p obtain info' where "device_at s' r = Some info'" "task_percentage info' = - 1"
    by (auto simp: row_progress_def)
  then have rd: "data env (Some (r, 0)) Role_UpdatingPercentage s' = Some (QVariant_null, s')"
    by (simp add: data_def)
  show ?thesis
    using res at' rc' an p rd by (intro exI [of _ s'] conjI)
qed

lemma started_ex_value:
  "started_ex = connected_ex
     \<lparr>devices := [(info_ex 7 (Some 1) ''X'')\<lparr>device := Some session_ex, task_percentage := 0\<rparr>],
      active_tasks := [(4, Some (0, 0))],
      signals := [dataChanged (Some (0, 0)) (Some (0, 0))]\<rparr>"
  by (simp add: started_ex_def DeviceTaskStarted_def ex_defs Let_def index_def rowCount_def
      set_device_def emit_def)

lemma two_tasks_ex_value:
  "two_tasks_ex = connected_ex
     \<lparr>devices := [(info_ex 7 (Some 1) ''X'')\<lparr>device := Some session_ex, task_percentage := 0\<rparr>],
      active_tasks := [(4, Some (0, 0)), (9, Some (0, 0))],
      signals := [dataChanged (Some (0, 0)) (Some (0, 0)), dataChanged (Some (0, 0)) (Some (0, 0))]\<rparr>"
  by (simp add: two_tasks_ex_def started_ex_value DeviceTaskStarted_def ex_defs Let_def index_def
      rowCount_def set_device_def emit_def)

subsection \<open>Stored indexes stay inside the model\<close>

text \<open>The indexes stored for tasks are invalid or inside the model in every reachable registry.\<close>

lemma active_tasks_call_ext [simp]: "active_tasks (call_ext c s) = active_tasks s"
  by (simp add: call_ext_def)

lemma rowCount_call_ext [simp]: "rowCount (call_ext c s) = rowCount s"
  by (simp add: rowCount_def)

lemma handles_valid_frame:
  assumes "handles_valid s" and "active_tasks s' = active_tasks s" and "rowCount s \<le> rowCount s'"
  shows "handles_valid s'"
proof -
  have "valid_index s' idx" if "valid_index s idx" for idx
    using that assms(3) by (auto simp: valid_index_def split: option.splits)
  with assms(1,2) show ?thesis
    by (simp add: handles_valid_def list_all_iff)
qed

lemma handles_valid_remove_row:
  assumes "handles_valid s" and "0 \<le> i" and "i < rowCount s"
  shows "handles_valid (remove_row i s)"
proof -
  let ?t = "s\<lparr>devices := removeAt (nat i) (devices s)\<rparr>"
  have rct: "rowCount ?t = rowCount s - 1"
    using assms(2,3) by (simp add: rowCount_def removeAt_def)
  have rc: "rowCount (remove_row i s) = rowCount s - 1"
    using assms(2,3) by (simp add: rowCount_def removeAt_def)
  have v: "valid_index (remove_row i s) (removed_index ?t i idx)" if "valid_index s idx" for idx
  proof (cases idx)
    case None
    then show ?thesis by (simp add: valid_index_def)
  next
    case (Some rc)
    obtain r c where rc': "rc = (r, c)" by (cases rc)
    from that Some rc' have "0 \<le> r" "r < rowCount s" "c = 0"
      by (simp_all add: valid_index_def)
    then show ?thesis
      unfolding Some rc' removed_index_cases [OF assms(2) rct] valid_index_def rc
      using assms(2,3) by auto
  qed
  show ?thesis
    unfolding handles_valid_def active_tasks_remove_row using assms(1) v
    by (auto simp: handles_valid_def list_all_iff)
qed

lemma handles_valid_set_device [simp]: "handles_valid (set_device row info s) = handles_valid s"
  by (simp add: handles_valid_def valid_index_def[abs_def])

lemma handles_valid_emit [simp]: "handles_valid (emit sg s) = handles_valid s"
  by (simp add: handles_valid_def valid_index_def[abs_def])

lemma handles_valid_call_ext [simp]: "handles_valid (call_ext c s) = handles_valid s"
  by (simp add: handles_valid_def valid_index_def[abs_def])

lemma handles_valid_PhysicalDeviceAdded:
  assumes "handles_valid s" and "PhysicalDeviceAdded env sender ident s = Some s'"
  shows "handles_valid s'"
proof -
  have "active_tasks s' = active_tasks s \<and> rowCount s \<le> rowCount s'"
    using assms(2)
    by (auto simp: PhysicalDeviceAdded_def Let_def rowCount_def split: if_splits option.splits)
  with assms(1) show ?thesis using handles_valid_frame by blast
qed

lemma handles_valid_PhysicalDeviceRemoved:
  assumes "handles_valid s" and "PhysicalDeviceRemoved sender ident s = Some s'"
  shows "handles_valid s'"
proof (cases "FindDeviceById s ident = - 1")
  case True
  with assms show ?thesis by (simp add: PhysicalDeviceRemoved_def)
next
  case False
  from FindDeviceById_found [OF refl False] obtain info where
    f: "0 \<le> FindDeviceById s ident" "FindDeviceById s ident < rowCount s"
       "device_at s (FindDeviceById s ident) = Some info" by blast
  have "handles_valid (remove_row (FindDeviceById s ident) (set_device (FindDeviceById s ident) x s))" for x
    using assms(1) f(1,2) by (intro handles_valid_remove_row) simp_all
  with assms False f(3) show ?thesis
    by (auto simp: PhysicalDeviceRemoved_def Let_def split: if_splits)
qed

lemma handles_valid_Connect_open:
  assumes "handles_valid s" and "Connect_open env row ft s = Some (ret, s')"
  shows "handles_valid s'"
  using assms by (auto simp: Connect_open_def Let_def split: option.splits if_splits)

lemma handles_valid_Connect:
  assumes "handles_valid s" and "Connect env row s = Some (ret, s')"
  shows "handles_valid s'"
  using assms
  by (auto simp: Connect_def Let_def elim!: handles_valid_Connect_open [rotated]
      split: option.splits if_splits)

lemma handles_valid_Disconnect:
  assumes "handles_valid s" and "Disconnect row s = Some s'"
  shows "handles_valid s'"
  using assms by (auto simp: Disconnect_def Let_def split: option.splits if_splits)

lemma device_at_range: "device_at s row = Some info \<Longrightarrow> 0 \<le> row \<and> row < rowCount s"
  by (simp add: device_at_def split: if_splits)

lemma handles_valid_Forget:
  assumes "handles_valid s" and "Forget env row s = Some s'"
  shows "handles_valid s'"
proof -
  obtain info0 where at0: "device_at s row = Some info0"
    using assms(2) by (auto simp: Forget_def split: option.splits)
  show ?thesis
  proof (cases "database_id info0 = - 1")
    case True
    with assms at0 show ?thesis by (simp add: Forget_def)
  next
    case False
    obtain s1 where s1: "(if device info0 \<noteq> None then Disconnect row s else Some s) = Some s1"
      using assms(2) at0 False by (auto simp: Forget_def split: option.splits if_splits)
    have inv1: "handles_valid s1"
      using s1 assms(1) handles_valid_Disconnect by (auto split: if_splits)
    obtain info1 where at1: "device_at s1 row = Some info1"
      using assms(2) at0 False s1 by (auto simp: Forget_def split: option.splits if_splits)
    from device_at_range [OF at1] have r: "0 \<le> row" "row < rowCount s1" by auto
    have "handles_valid (remove_row row (set_device row x (call_ext c s1)))" for x c
      using inv1 r by (intro handles_valid_remove_row) simp_all
    with assms(2) at0 False s1 at1 inv1 show ?thesis
      by (auto simp: Forget_def Let_def split: option.splits if_splits)
  qed
qed

lemma handles_valid_SetDeviceIdentity:
  assumes "handles_valid s" and "SetDeviceIdentity env row name icon_nm s = Some s'"
  shows "handles_valid s'"
  using assms by (auto simp: SetDeviceIdentity_def Let_def split: option.splits if_splits)

lemma handles_valid_Unmount:
  assumes "handles_valid s" and "Unmount env row s = Some s'"
  shows "handles_valid s'"
  using assms
  by (auto simp: Unmount_def Let_def dest: handles_valid_Disconnect split: option.splits if_splits)

lemma handles_valid_DeviceTaskStarted:
  assumes "handles_valid s"
  shows "handles_valid (DeviceTaskStarted sender ident s)"
proof (cases sender)
  case None
  with assms show ?thesis by (simp add: DeviceTaskStarted_def)
next
  case (Some p)
  show ?thesis
  proof (cases "find_device (devices s) p 0")
    case None
    with Some assms show ?thesis by (simp add: DeviceTaskStarted_def)
  next
    case r: (Some r)
    from DeviceTaskStarted_row [OF r, of ident] assms Some show ?thesis by simp
  qed
qed

lemma TasksChanged_tasks_frame:
  "TasksChanged_tasks tasks fin s = Some (fin', s') \<Longrightarrow>
     active_tasks s' = active_tasks s \<and> rowCount s' = rowCount s"
proof (induction tasks arbitrary: fin s)
  case Nil
  then show ?case by simp
next
  case (Cons task tasks)
  show ?case
  proof (cases "map_of (active_tasks s) (task_id task) = None \<or> map_of (active_tasks s) (task_id task) = Some None")
    case True
    from Cons.prems show ?thesis
      unfolding TasksChanged_tasks_skip [OF True] by (rule Cons.IH)
  next
    case False
    then obtain r c where look: "map_of (active_tasks s) (task_id task) = Some (Some (r, c))"
      by (cases "map_of (active_tasks s) (task_id task)") auto
    from Cons.prems look obtain info pct where
      at: "device_at s r = Some info" and pct: "percent_of task = Some pct"
      by (auto simp: percent_of_def split: option.splits if_splits)
    from Cons.prems [unfolded TasksChanged_tasks_step [OF look at pct]]
    have "active_tasks s' = active_tasks (emit (dataChanged (Some (r, c)) (Some (r, c)))
              (set_device r (info\<lparr>task_percentage := pct\<rparr>) s))
        \<and> rowCount s' = rowCount (emit (dataChanged (Some (r, c)) (Some (r, c)))
              (set_device r (info\<lparr>task_percentage := pct\<rparr>) s))"
      by (rule Cons.IH)
    then show ?thesis by simp
  qed
qed

lemma TasksChanged_finished_frame:
  "TasksChanged_finished fin s = Some s' \<Longrightarrow>
     active_tasks s' = active_tasks s \<and> rowCount s' = rowCount s"
proof (induction fin s rule: TasksChanged_finished.induct)
  case (1 s)
  then show ?case by simp
next
  case (2 finished_tasks s)
  then show ?case by simp
next
  case (3 r c finished_tasks s)
  from "3.prems" obtain info where
    at: "device_at s r = Some info" and
    rest: "TasksChanged_finished finished_tasks
             (emit (dataChanged (Some (r, c)) (Some (r, c)))
                (set_device r (info\<lparr>task_percentage := - 1\<rparr>) s)) = Some s'"
    by (auto simp: Let_def split: option.splits)
  from "3.IH" [OF at refl rest] show ?case by simp
qed

lemma handles_valid_TasksChanged:
  assumes "handles_valid s" and "TasksChanged tasks s = Some s'"
  shows "handles_valid s'"
proof -
  from assms(2) obtain fin' s1 where
    "TasksChanged_tasks tasks (map snd (active_tasks s)) s = Some (fin', s1)"
    "TasksChanged_finished fin' s1 = Some s'"
    by (auto simp: TasksChanged_def split: option.splits)
  from TasksChanged_tasks_frame [OF this(1)] TasksChanged_finished_frame [OF this(2)]
  have "active_tasks s' = active_tasks s" "rowCount s \<le> rowCount s'" by simp_all
  with assms(1) show ?thesis using handles_valid_frame by blast
qed

lemma handles_valid_data:
  assumes "handles_valid s" and "data env idx rl s = Some (v, s')"
  shows "handles_valid s'"
proof (cases "rl = MusicStorage_Role_Storage")
  case False
  from data_read_only [OF False assms(2)] assms(1) show ?thesis by simp
next
  case True
  with assms show ?thesis
    by (auto simp: data_def split: option.splits if_splits prod.splits
        dest: handles_valid_Connect)
qed

lemma reachable_handles_valid: "reachable s \<Longrightarrow> handles_valid s"
proof (induction rule: reachable.induct)
  case (constructed env db classes)
  show ?case by (simp add: handles_valid_def DeviceManager_new_def)
next
  case (added s env sender ident s')
  then show ?case using handles_valid_PhysicalDeviceAdded by blast
next
  case (removed s sender ident s')
  then show ?case using handles_valid_PhysicalDeviceRemoved by blast
next
  case (changed s sender ident s')
  then show ?case by (simp add: PhysicalDeviceChanged_def Let_def split: if_splits)
next
  case (connected s env row ret s')
  then show ?case using handles_valid_Connect by blast
next
  case (disconnected s row s')
  then show ?case using handles_valid_Disconnect by blast
next
  case (forgotten s env row s')
  then show ?case using handles_valid_Forget by blast
next
  case (renamed s env row name icon_nm s')
  then show ?case using handles_valid_SetDeviceIdentity by blast
next
  case (unmounted s env row s')
  then show ?case using handles_valid_Unmount by blast
next
  case (task_started s task_sender task)
  then show ?case using handles_valid_DeviceTaskStarted by blast
next
  case (tasks_changed s tasks s')
  then show ?case using handles_valid_TasksChanged by blast
next
  case (read s env idx rl v s')
  then show ?case using handles_valid_data by blast
next
  case (referenced s p)
  then show ?case by (simp add: handles_valid_def valid_index_def[abs_def] rowCount_def)
qed

subsection \<open>Which URL is opened\<close>

text \<open>
  Claim C1. The claim says that \<open>Connect\<close> hands the first candidate URL with a registered
  scheme to the device class. On a persisted, attached device whose lister resolves it
  to \<open>ipod://X\<close> and then \<open>file://X\<close>, both registered, the source constructs the
  device of class 2 on \<open>file://X\<close>, the last such URL, although the first one with a
  registered scheme is \<open>ipod://X\<close>: the loop that the source's comment describes as
  taking the first URL never leaves the list early.
\<close>

theorem Connect_opens_last_registered_url:
  "map_option (map_option cd_url \<circ> fst) (Connect env_ex 0 (registry_ex [info_ex 5 (Some 1) ''X'']))
     = Some (Some (url_ex ''file'' ''X''))
   \<and> map_option (calls \<circ> snd) (Connect env_ex 0 (registry_ex [info_ex 5 (Some 1) ''X'']))
     = Some [Call_newInstance 2 (url_ex ''file'' ''X'') (Some 1) ''X'' 5 False]
   \<and> find (\<lambda>u. device_classes (registry_ex [info_ex 5 (Some 1) ''X'']) (url_scheme u) \<noteq> None)
        (MakeDeviceUrls env_ex 1 ''X'') = Some (url_ex ''ipod'' ''X'')"
  by (simp add: ex_defs connect_defs)

subsection \<open>The notification after a failed construction\<close>

text \<open>
  Claim C2. The claim says that the "connected" notification is sent only when the
  construction succeeds. When the device class constructs nothing, the source logs a
  warning and stores no session, and then still emits \<open>DeviceConnected\<close> for the row:
  the only signal of the call, on a record that stays disconnected.
\<close>

theorem Connect_failed_construction_emits_DeviceConnected:
  "Connect env_fail 0 (registry_ex [info_ex 5 (Some 1) ''X'']) =
     Some (None, (registry_ex [info_ex 5 (Some 1) ''X''])
       \<lparr>signals := [DeviceConnected 0],
        calls := [Call_newInstance 2 (url_ex ''file'' ''X'') (Some 1) ''X'' 5 False,
                  Call_qWarning ''Could not create device for file://X'']\<rparr>)"
  by (simp add: ex_defs connect_defs)

subsection \<open>Connecting a device that is not attached\<close>

text \<open>
  Claim C7, as stated, has \<open>Connect\<close> report the failure on the error channel. On a
  remembered device without a lister the source returns no session and emits nothing:
  the registry, with its empty list of signals, is returned as it was.
\<close>

theorem Connect_absent_device_counterexample:
  "Connect env_ex 0 (registry_ex [info_ex 5 None ''X'']) = Some (None, registry_ex [info_ex 5 None ''X''])
   \<and> signals (registry_ex [info_ex 5 None ''X'']) = []"
  by (simp add: ex_defs connect_defs)

text \<open>
  Claim C7, amended. For every row without a session whose primary binding has no live
  lister, \<open>Connect\<close> returns no session and leaves the whole registry unchanged: no
  record is modified, nothing is persisted, and no signal (in particular no \<open>Error\<close>) is
  emitted. The null session is the only report of the failure.
\<close>

theorem Connect_absent_device_silent:
  assumes "device_at s row = Some info"
    and "device info = None"
    and "BestBackend env info = Some bb"
    and "lister bb = None"
  shows "Connect env row s = Some (None, s)"
  using assms by (simp add: Connect_def)

theorem Connect_absent_device_silent_witness:
  "device_at (registry_ex [info_ex 5 (Some 1) ''X'', info_ex (- 1) None ''Y'']) 1 = Some (info_ex (- 1) None ''Y'')
   \<and> device (info_ex (- 1) None ''Y'') = None
   \<and> BestBackend env_ex (info_ex (- 1) None ''Y'') = Some \<lparr>lister = None, unique_id = ''Y''\<rparr>
   \<and> lister \<lparr>lister = None, unique_id = ''Y''\<rparr> = None
   \<and> Connect env_ex 1 (registry_ex [info_ex 5 (Some 1) ''X'', info_ex (- 1) None ''Y''])
       = Some (None, registry_ex [info_ex 5 (Some 1) ''X'', info_ex (- 1) None ''Y''])"
proof -
  have h1: "device_at (registry_ex [info_ex 5 (Some 1) ''X'', info_ex (- 1) None ''Y'']) 1
      = Some (info_ex (- 1) None ''Y'')"
    by (simp add: ex_defs device_at_def rowCount_def)
  have h2: "device (info_ex (- 1) None ''Y'') = None"
    by (simp add: ex_defs)
  have h3: "BestBackend env_ex (info_ex (- 1) None ''Y'') = Some \<lparr>lister = None, unique_id = ''Y''\<rparr>"
    by (simp add: ex_defs BestBackend_def)
  have h4: "lister \<lparr>lister = None, unique_id = ''Y''\<rparr> = None"
    by simp
  show ?thesis
    using Connect_absent_device_silent [OF h1 h2 h3 h4] h1 h2 h3 h4 by simp
qed

subsection \<open>Promotion at the first connection\<close>






subsection \<open>Removal of an attached device\<close>

text \<open>
  Claim C3, as stated, has the state read after the removal return \<open>NotConnected\<close>. On
  the persisted record connected through lister 1, the removal of its binding by lister 1
  succeeds and the state read on the row then returns \<open>State_Remembered\<close>, not
  \<open>State_NotConnected\<close>.
\<close>

theorem PhysicalDeviceRemoved_state_counterexample:
  "PhysicalDeviceRemoved (Some 1) ''X'' connected_ex \<noteq> None
   \<and> map_option fst (data env_ex (Some (0, 0)) Role_State
        (the (PhysicalDeviceRemoved (Some 1) ''X'' connected_ex)))
       = Some (QVariant_state State_Remembered)
   \<and> QVariant_state State_Remembered \<noteq> QVariant_state State_NotConnected"
  by (simp add: ex_defs PhysicalDeviceRemoved_def FindDeviceById_def data_def connect_defs)

text \<open>
  Claim C3, amended. Let a "device removed" event for the id \<open>ident\<close> find a persisted
  record whose bindings have distinct ids and whose only live binding, if any, is the one
  of that id. Then the event returns, the number of records is unchanged and the record
  is found at the same row, it keeps its database id and the ids of all its bindings,
  none of its bindings has a lister any more, its session is torn down when it was made by
  the sender and kept otherwise, and the state read on the row returns \<open>Remembered\<close>
  when no session is left (\<open>Connected\<close> when a session of another lister is left).
\<close>

theorem PhysicalDeviceRemoved_persisted_is_remembered:
  assumes "FindDeviceById s ident = i" and "i \<noteq> - 1"
    and "device_at s i = Some info" and "database_id info \<noteq> - 1"
    and "distinct (map unique_id (backends info))"
    and "\<forall>b \<in> set (backends info). lister b \<noteq> None \<longrightarrow> unique_id b = ident"
  shows "\<exists>s' info'. PhysicalDeviceRemoved sender ident s = Some s'
     \<and> length (devices s') = length (devices s)
     \<and> FindDeviceById s' ident = i
     \<and> device_at s' i = Some info'
     \<and> database_id info' = database_id info
     \<and> map unique_id (backends info') = map unique_id (backends info)
     \<and> (\<forall>b \<in> set (backends info'). lister b = None)
     \<and> device info' = (case device info of
                         None \<Rightarrow> None
                       | Some d \<Rightarrow> if cd_lister d = sender then None else Some d)
     \<and> map_option fst (data env (Some (i, 0)) Role_State s')
         = Some (QVariant_state (if device info' = None then State_Remembered else State_Connected))"
proof -
  let ?info1 = "info\<lparr>backends := set_lister ident None (backends info)\<rparr>"
  let ?info2 = "case device ?info1 of
                  Some d \<Rightarrow> if cd_lister d = sender then ?info1\<lparr>device := None\<rparr> else ?info1
                | None \<Rightarrow> ?info1"
  let ?s1 = "set_device i ?info2 s"
  let ?s2 = "emit (dataChanged (index ?s1 i 0) (index ?s1 i 0)) ?s1"
  let ?s' = "if device ?info2 = None then emit (DeviceDisconnected i) ?s2 else ?s2"
  from FindDeviceById_found [OF assms(1,2)] assms(3) have
    f: "0 \<le> i" "i < rowCount s" "has_id ident info" "info = devices s ! nat i"
    by auto
  have b2: "backends ?info2 = set_lister ident None (backends info)"
    by (simp split: option.splits)
  have db2: "database_id ?info2 = database_id info"
    by (simp split: option.splits)
  have dv2: "device ?info2 = (case device info of
                         None \<Rightarrow> None
                       | Some d \<Rightarrow> if cd_lister d = sender then None else Some d)"
    by (simp split: option.splits)
  have res: "PhysicalDeviceRemoved sender ident s = Some ?s'"
    using assms(1-4) by (simp add: PhysicalDeviceRemoved_def Let_def)
  have dev: "devices ?s' = (devices s)[nat i := ?info2]"
    by simp
  have at: "device_at ?s' i = Some ?info2"
    using f(1,2) by (simp add: device_at_def rowCount_def)
  have ids: "map unique_id (backends ?info2) = map unique_id (backends info)"
    unfolding b2 by simp
  have find: "FindDeviceById ?s' ident = i"
    using FindDeviceById_update [OF assms(1,2) dev] ids f(4) by simp
  have dead: "\<forall>b \<in> set (backends ?info2). lister b = None"
    unfolding b2 using set_lister_None_all [OF assms(5,6)] .
  have ne: "backends ?info2 \<noteq> []"
    using f(3) ids by (auto simp: has_id_def)
  have best: "BestBackend env ?info2 = Some (hd (backends ?info2))"
    using BestBackend_dead [OF ne dead] .
  have hd: "lister (hd (backends ?info2)) = None"
    using dead ne by simp
  have st: "map_option fst (data env (Some (i, 0)) Role_State ?s')
         = Some (QVariant_state (if device ?info2 = None then State_Remembered else State_Connected))"
    unfolding data_def using at best hd by simp
  show ?thesis
    using res dev at db2 ids dead dv2 st find
    by (intro exI [of _ ?s'] exI [of _ ?info2]) (simp only: length_list_update simp_thms)
qed

theorem PhysicalDeviceRemoved_persisted_is_remembered_witness:
  "FindDeviceById connected_ex ''X'' = 0 \<and> (0::int) \<noteq> - 1
   \<and> device_at connected_ex 0 = Some ((info_ex 7 (Some 1) ''X'')\<lparr>device := Some session_ex\<rparr>)
   \<and> database_id ((info_ex 7 (Some 1) ''X'')\<lparr>device := Some session_ex\<rparr>) \<noteq> - 1
   \<and> backends ((info_ex 7 (Some 1) ''X'')\<lparr>device := Some session_ex\<rparr>)
       = [\<lparr>lister = Some 1, unique_id = ''X''\<rparr>]
   \<and> (\<exists>s' info'. PhysicalDeviceRemoved (Some 1) ''X'' connected_ex = Some s'
        \<and> length (devices s') = 1 \<and> FindDeviceById s' ''X'' = 0
        \<and> device_at s' 0 = Some info' \<and> database_id info' = 7
        \<and> map unique_id (backends info') = [''X'']
        \<and> map lister (backends info') = [None]
        \<and> device info' = None
        \<and> map_option fst (data env_ex (Some (0, 0)) Role_State s') = Some (QVariant_state State_Remembered))"
proof -
  let ?info = "(info_ex 7 (Some 1) ''X'')\<lparr>device := Some session_ex\<rparr>"
  have h1: "FindDeviceById connected_ex ''X'' = 0"
    by (simp add: ex_defs FindDeviceById_def)
  have h2: "(0::int) \<noteq> - 1"
    by simp
  have h3: "device_at connected_ex 0 = Some ?info"
    by (simp add: ex_defs device_at_def rowCount_def)
  have h4: "database_id ?info \<noteq> - 1"
    by (simp add: ex_defs)
  have b: "backends ?info = [\<lparr>lister = Some 1, unique_id = ''X''\<rparr>]"
    by (simp add: ex_defs)
  have h5: "distinct (map unique_id (backends ?info))"
    by (simp add: ex_defs)
  have h6: "\<forall>b \<in> set (backends ?info). lister b \<noteq> None \<longrightarrow> unique_id b = ''X''"
    by (simp add: ex_defs)
  have v: "length (devices connected_ex) = 1" "database_id ?info = 7"
    "map unique_id (backends ?info) = [''X'']"
    "(case device ?info of None \<Rightarrow> None
      | Some d \<Rightarrow> if cd_lister d = Some 1 then None else Some d) = None"
    by (simp_all add: ex_defs)
  have one: "map lister bs = [None]"
    if "map unique_id bs = [''X'']" and "\<forall>b \<in> set bs. lister b = None" for bs :: "Backend list"
    using that by (cases bs) auto
  from PhysicalDeviceRemoved_persisted_is_remembered [OF h1 h2 h3 h4 h5 h6, of "Some 1" env_ex]
  have "\<exists>s' info'. PhysicalDeviceRemoved (Some 1) ''X'' connected_ex = Some s'
        \<and> length (devices s') = 1 \<and> FindDeviceById s' ''X'' = 0
        \<and> device_at s' 0 = Some info' \<and> database_id info' = 7
        \<and> map unique_id (backends info') = [''X'']
        \<and> map lister (backends info') = [None]
        \<and> device info' = None
        \<and> map_option fst (data env_ex (Some (0, 0)) Role_State s') = Some (QVariant_state State_Remembered)"
    unfolding v by (elim exE conjE, intro exI conjI) (simp_all add: one)
  with h1 h2 h3 h4 b show ?thesis by blast
qed

text \<open>
  What the removal of an unpersisted record with a single binding does: the event
  returns, the record is removed from the list of records (the others keep their order),
  the removal of row \<open>i\<close> is announced, and of the persistent indexes of the model an
  invalid one stays invalid, one on row \<open>i\<close> becomes invalid, one on a row before \<open>i\<close> is
  unchanged, and one on a later row \<open>r\<close> (inside the model, column 0) ends on row \<open>r - 2\<close>,
  or invalid when there is no such row: the loop of the source moves it by one and
  \<open>endRemoveRows\<close> moves it by one again.
\<close>

lemma PhysicalDeviceRemoved_unpersisted_indexes:
  assumes "FindDeviceById s ident = i" and "i \<noteq> - 1"
    and "device_at s i = Some info" and "database_id info = - 1"
    and "length (backends info) = 1"
  shows "\<exists>s'. PhysicalDeviceRemoved sender ident s = Some s'
     \<and> devices s' = removeAt (nat i) (devices s)
     \<and> rowCount s' = rowCount s - 1
     \<and> signals s' = signals s @ [rowsAboutToBeRemoved i i, rowsRemoved i i]
     \<and> length (row_references s') = length (row_references s)
     \<and> (\<forall>k < length (row_references s).
          (row_references s ! k = None \<longrightarrow> row_references s' ! k = None)
          \<and> (\<forall>r c. row_references s ! k = Some (r, c) \<longrightarrow>
                (i < r \<and> r < rowCount s \<and> c = 0 \<longrightarrow>
                   row_references s' ! k = (if 2 \<le> r then Some (r - 2, c) else None))
              \<and> (r = i \<longrightarrow> row_references s' ! k = None)
              \<and> (r < i \<longrightarrow> row_references s' ! k = Some (r, c))))"
proof -
  let ?info1 = "info\<lparr>backends := remove_backend ident (backends info)\<rparr>"
  let ?s1 = "set_device i ?info1 s"
  let ?s2 = "?s1\<lparr>devices := removeAt (nat i) (devices ?s1)\<rparr>"
  from FindDeviceById_found [OF assms(1,2)] assms(3) have
    f: "0 \<le> i" "i < rowCount s" "has_id ident info"
    by auto
  have empty: "remove_backend ident (backends info) = []"
    using remove_backend_single [OF assms(5)] f(3) by (simp add: has_id_def)
  have res: "PhysicalDeviceRemoved sender ident s = Some (remove_row i ?s1)"
    using assms(1-4) empty by (simp add: PhysicalDeviceRemoved_def Let_def)
  have len: "nat i < length (devices s)"
    using f by (simp add: rowCount_def)
  have dev: "devices (remove_row i ?s1) = removeAt (nat i) (devices s)"
    using len by (simp add: remove_row_def Let_def removeAt_def emit_def)
  have rc: "rowCount (remove_row i ?s1) = rowCount s - 1"
    unfolding rowCount_def dev using len by (simp add: removeAt_def)
  have rc2: "rowCount ?s2 = rowCount s - 1"
    using len by (simp add: rowCount_def removeAt_def)
  have sg: "signals (remove_row i ?s1) = signals s @ [rowsAboutToBeRemoved i i, rowsRemoved i i]"
    by (simp add: remove_row_def Let_def emit_def set_device_def)
  have refs1: "row_references ?s1 = row_references s"
    by (simp add: row_references_def set_device_def)
  have refs: "row_references (remove_row i ?s1) = map (removed_index ?s2 i) (row_references s)"
    unfolding row_references_remove_row refs1 ..
  have each: "\<forall>k < length (row_references s).
          (row_references s ! k = None \<longrightarrow> row_references (remove_row i ?s1) ! k = None)
          \<and> (\<forall>r c. row_references s ! k = Some (r, c) \<longrightarrow>
                (i < r \<and> r < rowCount s \<and> c = 0 \<longrightarrow>
                   row_references (remove_row i ?s1) ! k = (if 2 \<le> r then Some (r - 2, c) else None))
              \<and> (r = i \<longrightarrow> row_references (remove_row i ?s1) ! k = None)
              \<and> (r < i \<longrightarrow> row_references (remove_row i ?s1) ! k = Some (r, c)))"
    unfolding refs
    using removed_index_cases [OF f(1) rc2]
    by auto
  have l: "length (row_references (remove_row i ?s1)) = length (row_references s)"
    unfolding refs by simp
  show ?thesis
    using res dev rc sg l each by (intro exI [of _ "remove_row i ?s1"]) (simp only: simp_thms)
qed

text \<open>
  Claim C6. The claim says that the persistent indexes on rows after the removed one are
  renumbered down by one. In the registry of the three unpersisted records A, B and C,
  with persistent indexes on the rows 0, 1 and 2 and a task tracked on row 2, the removal
  of B (row 1) removes the record and invalidates the index on row 1, as the claim says,
  and leaves the index on row 0. The two indexes on row 2, where C was, end on row 0, the
  row of A, while C is on row 1 now: the loop of the source renumbers them to row 1 and
  \<open>endRemoveRows\<close>, which does the renumbering itself, moves them once more.
\<close>

theorem PhysicalDeviceRemoved_renumbers_twice:
  "PhysicalDeviceRemoved (Some 1) ''B'' three_ex \<noteq> None
   \<and> devices (the (PhysicalDeviceRemoved (Some 1) ''B'' three_ex))
       = [info_ex (- 1) (Some 1) ''A'', info_ex (- 1) (Some 1) ''C'']
   \<and> row_references three_ex = [Some (0, 0), Some (1, 0), Some (2, 0), None, Some (2, 0)]
   \<and> row_references (the (PhysicalDeviceRemoved (Some 1) ''B'' three_ex))
       = [Some (0, 0), None, Some (0, 0), None, Some (0, 0)]"
  by (simp add: ex_defs PhysicalDeviceRemoved_def FindDeviceById_def device_at_def rowCount_def
      set_device_def remove_row_def Let_def emit_def removeAt_def row_references_def
      changePersistentIndex_def endRemoveRows_index_def index_def)

subsection \<open>Repeated announcement of a device\<close>



subsection \<open>Every listed record has a binding\<close>

text \<open>
  Claim C9. In every registry the program can reach (from the constructor, which makes
  at least one binding for each persisted device, through any sequence of events,
  requests and reads), every record has a non-empty list of bindings. Hence, for every
  row of the model, the primary-binding query \<open>BestBackend\<close> returns a binding, the first
  one when no binding has a lister, and no read of the row, whatever the role, goes
  through a null pointer. The reads do depend on it: on a record without bindings the
  roles \<open>Role_UniqueId\<close>, \<open>Role_FreeSpace\<close> and \<open>DecorationRole\<close>, and \<open>Role_State\<close>
  and \<open>DisplayRole\<close> when they consult the primary binding, dereference null.
\<close>

theorem listed_records_have_bindings:
  assumes "reachable s"
  shows "bindings_nonempty s
     \<and> (\<forall>row info. device_at s row = Some info \<longrightarrow>
           backends info \<noteq> []
           \<and> (\<exists>bb. BestBackend env info = Some bb
                 \<and> (list_all (\<lambda>b. lister b = None) (backends info) \<longrightarrow> bb = hd (backends info)))
           \<and> (\<forall>rl. data env (Some (row, 0)) rl s \<noteq> None))
     \<and> (\<forall>s0 row info. device_at s0 row = Some info \<and> backends info = [] \<longrightarrow>
           data env (Some (row, 0)) Role_UniqueId s0 = None
           \<and> data env (Some (row, 0)) Role_FreeSpace s0 = None
           \<and> data env (Some (row, 0)) DecorationRole s0 = None
           \<and> (device info = None \<longrightarrow> data env (Some (row, 0)) Role_State s0 = None)
           \<and> (friendly_name info = [] \<longrightarrow> data env (Some (row, 0)) DisplayRole s0 = None))"
proof -
  have null: "data env (Some (row, 0)) Role_UniqueId s0 = None
           \<and> data env (Some (row, 0)) Role_FreeSpace s0 = None
           \<and> data env (Some (row, 0)) DecorationRole s0 = None
           \<and> (device info = None \<longrightarrow> data env (Some (row, 0)) Role_State s0 = None)
           \<and> (friendly_name info = [] \<longrightarrow> data env (Some (row, 0)) DisplayRole s0 = None)"
    if "device_at s0 row = Some info \<and> backends info = []" for s0 row info
    using that by (simp add: data_def BestBackend_def)
  have inv: "bindings_nonempty s"
    using assms by (rule reachable_bindings_nonempty)
  have "backends info \<noteq> []
           \<and> (\<exists>bb. BestBackend env info = Some bb
                 \<and> (list_all (\<lambda>b. lister b = None) (backends info) \<longrightarrow> bb = hd (backends info)))
           \<and> (\<forall>rl. data env (Some (row, 0)) rl s \<noteq> None)"
    if at: "device_at s row = Some info" for row info
  proof -
    have ne: "backends info \<noteq> []"
      using bindings_nonempty_at [OF inv at] .
    obtain bb where bb: "BestBackend env info = Some bb"
      using BestBackend_nonempty [OF ne] by blast
    have "bb = hd (backends info)" if "list_all (\<lambda>b. lister b = None) (backends info)"
      using BestBackend_dead [OF ne, of env] that bb by (simp add: list_all_iff)
    with ne bb data_total [OF at ne] show ?thesis by blast
  qed
  with inv null show ?thesis by blast
qed

theorem listed_records_have_bindings_witness:
  "bindings_nonempty loaded_ex
   \<and> device_at loaded_ex 0 = Some (InitFromDb env_ex (hd db_ex) DeviceInfo_new)
   \<and> backends (InitFromDb env_ex (hd db_ex) DeviceInfo_new) = [\<lparr>lister = None, unique_id = []\<rparr>]
   \<and> BestBackend env_ex (InitFromDb env_ex (hd db_ex) DeviceInfo_new) = Some \<lparr>lister = None, unique_id = []\<rparr>
   \<and> data env_ex (Some (0, 0)) Role_State loaded_ex \<noteq> None"
proof -
  let ?info = "InitFromDb env_ex (hd db_ex) DeviceInfo_new"
  have r: "reachable loaded_ex"
    unfolding loaded_ex_def by (rule reachable.constructed)
  have at: "device_at loaded_ex 0 = Some ?info"
    by (simp add: loaded_ex_def db_ex_def DeviceManager_new_def device_at_def rowCount_def)
  have b: "backends ?info = [\<lparr>lister = None, unique_id = []\<rparr>]"
    by (simp add: db_ex_def InitFromDb_def Let_def DeviceInfo_new_def)
  have dead: "list_all (\<lambda>b. lister b = None) (backends ?info)"
    by (simp add: b)
  from listed_records_have_bindings [OF r, of env_ex] at dead
  have "bindings_nonempty loaded_ex" "BestBackend env_ex ?info = Some (hd (backends ?info))"
    "data env_ex (Some (0, 0)) Role_State loaded_ex \<noteq> None"
    by blast+
  with at b show ?thesis by simp
qed

subsection \<open>Progress of a task\<close>

lemma TasksChanged_total:
  assumes hv: "handles_valid s" and conv: "\<forall>t \<in> set tasks. percent_of t \<noteq> None"
  shows "\<exists>s'. TasksChanged tasks s = Some s'
           \<and> active_tasks s' = active_tasks s \<and> rowCount s' = rowCount s \<and> handles_valid s'"
proof -
  have fv: "list_all (valid_index s) (map snd (active_tasks s))"
    using hv by (simp add: handles_valid_def)
  from TasksChanged_tasks_total [OF hv conv fv]
  obtain fin1 s1 where
    l1: "TasksChanged_tasks tasks (map snd (active_tasks s)) s = Some (fin1, s1)"
        "active_tasks s1 = active_tasks s" "rowCount s1 = rowCount s"
        "list_all (valid_index s1) fin1"
    by blast
  from TasksChanged_finished_row [OF l1(4) le_refl, of 0]
  obtain s' where
    l2: "TasksChanged_finished fin1 s1 = Some s'"
        "active_tasks s' = active_tasks s1" "rowCount s' = rowCount s1"
    by blast
  have res: "TasksChanged tasks s = Some s'"
    using l1(1) l2(1) by (simp add: TasksChanged_def)
  have at': "active_tasks s' = active_tasks s" and rc': "rowCount s' = rowCount s"
    using l1(2,3) l2(2,3) by simp_all
  have hv': "handles_valid s'"
    using handles_valid_TasksChanged [OF hv res] .
  show ?thesis
    using res at' rc' hv' by (intro exI [of _ s'] conjI)
qed

text \<open>
  Claim C8, as stated, has every snapshot with the task set the row to
  \<open>progress / progress_max * 100\<close> and the first snapshot without the task clear the
  row. The source keeps one percentage for a row and never forgets a task id. When tasks
  4 and 9 are both tracked on row 0, a snapshot with task 9 at 1/2 and without task 4
  leaves the row at 50, which is read as 50 and not as a null value. The quotient is
  computed in single precision and truncated: a snapshot that reports 53/100 for the
  only task of the row stores 52.
\<close>

theorem task_progress_counterexample:
  "map_of (active_tasks two_tasks_ex) 4 = Some (Some (0, 0))
   \<and> map_of (active_tasks two_tasks_ex) 9 = Some (Some (0, 0))
   \<and> map_option (\<lambda>s. row_progress s 0)
        (TasksChanged [\<lparr>task_id = 9, progress = 1, progress_max = 2\<rparr>] two_tasks_ex) = Some (Some 50)
   \<and> map_option (\<lambda>s. map_option fst (data env_ex (Some (0, 0)) Role_UpdatingPercentage s))
        (TasksChanged [\<lparr>task_id = 9, progress = 1, progress_max = 2\<rparr>] two_tasks_ex)
       = Some (Some (QVariant_int 50))
   \<and> map_option (\<lambda>s. row_progress s 0)
        (TasksChanged [\<lparr>task_id = 4, progress = 53, progress_max = 100\<rparr>] started_ex) = Some (Some 52)"
  by (simp add: two_tasks_ex_value started_ex_value TasksChanged_def percentage_truncated
      row_progress_def device_at_def rowCount_def set_device_def emit_def data_def ex_defs Let_def)

text \<open>
  Claim C8, amended. (1) When a session that is stored on row \<open>r\<close> starts a task, the
  task id is associated with the persistent index of row \<open>r\<close>, the percentage of the row
  becomes 0 and one update notification for the row is emitted. (2) On every registry
  whose stored indexes are invalid or inside the model, as they are in every reachable
  registry, a snapshot refresh whose percentages fit an \<open>int\<close> returns and keeps the
  tracked tasks and the rows. If a task of the snapshot is tracked on row \<open>r\<close>, the
  percentage of the row becomes the value computed for the last such task of the
  snapshot, and an update notification for the row is emitted. If a task id is tracked
  on row \<open>r\<close> and no task of the snapshot is tracked on that row, the percentage is
  cleared (-1, which is read as a null value) and an update notification for the row is
  emitted. (3) The value computed for a task is 0 when \<open>progress_max\<close> is 0. Otherwise it
  is the single-precision value of \<open>float(progress) / progress_max * 100\<close>, truncated to
  an integer: 0, 50 and 100 for 0/10, 5/10 and 10/10, and 52 for 53/100. For
  \<open>0 \<le> progress \<le> progress_max\<close> it lies between the exact percentage minus 1/40000,
  rounded down, and the exact percentage plus 1/40000, rounded down: it is the exact
  percentage rounded down unless that percentage is within 1/40000 of a whole number.
\<close>

theorem task_progress_lifecycle:
  "(find_device (devices before) p 0 = Some r \<longrightarrow>
      map_of (active_tasks (DeviceTaskStarted (Some p) ident before)) ident = Some (Some (r, 0))
      \<and> row_progress (DeviceTaskStarted (Some p) ident before) r = Some 0
      \<and> signals (DeviceTaskStarted (Some p) ident before) = signals before @ [dataChanged (Some (r, 0)) (Some (r, 0))]
      \<and> (handles_valid before \<longrightarrow> handles_valid (DeviceTaskStarted (Some p) ident before)))
   \<and> (handles_valid s \<and> (\<forall>t \<in> set tasks. percent_of t \<noteq> None) \<longrightarrow>
       (\<exists>s'. TasksChanged tasks s = Some s'
           \<and> active_tasks s' = active_tasks s \<and> rowCount s' = rowCount s \<and> handles_valid s'
           \<and> (tasks = pre @ t # post \<and> tracked_on s r t \<and> (\<forall>t' \<in> set post. \<not> tracked_on s r t') \<longrightarrow>
                announced (length (signals s)) r s' \<and> row_progress s' r = percent_of t)
           \<and> (map_of (active_tasks s) ident = Some (Some (r, 0))
                \<and> (\<forall>t \<in> set tasks. \<not> tracked_on s r t) \<longrightarrow>
                announced (length (signals s)) r s' \<and> row_progress s' r = Some (- 1)
                \<and> data env (Some (r, 0)) Role_UpdatingPercentage s' = Some (QVariant_null, s'))))
   \<and> (\<forall>t. progress_max t = 0 \<longrightarrow> percent_of t = Some 0)
   \<and> (\<forall>t. progress_max t = 10 \<longrightarrow>
         (progress t = 0 \<longrightarrow> percent_of t = Some 0)
         \<and> (progress t = 5 \<longrightarrow> percent_of t = Some 50)
         \<and> (progress t = 10 \<longrightarrow> percent_of t = Some 100))
   \<and> (\<forall>t. progress_max t = 100 \<and> progress t = 53 \<longrightarrow> percent_of t = Some 52)
   \<and> (\<forall>t. 0 \<le> progress t \<and> progress t \<le> progress_max t \<and> 0 < progress_max t \<longrightarrow>
         (\<exists>v. percent_of t = Some v
            \<and> \<lfloor>100 * of_int (progress t) / of_int (progress_max t) - (1 / 40000 :: rat)\<rfloor> \<le> v
            \<and> v \<le> \<lfloor>100 * of_int (progress t) / of_int (progress_max t) + (1 / 40000 :: rat)\<rfloor>))"
proof -
  have a: "find_device (devices before) p 0 = Some r \<longrightarrow>
      map_of (active_tasks (DeviceTaskStarted (Some p) ident before)) ident = Some (Some (r, 0))
      \<and> row_progress (DeviceTaskStarted (Some p) ident before) r = Some 0
      \<and> signals (DeviceTaskStarted (Some p) ident before) = signals before @ [dataChanged (Some (r, 0)) (Some (r, 0))]
      \<and> (handles_valid before \<longrightarrow> handles_valid (DeviceTaskStarted (Some p) ident before))"
    using DeviceTaskStarted_row [of before p r ident] by blast
  have b: "\<exists>s'. TasksChanged tasks s = Some s'
           \<and> active_tasks s' = active_tasks s \<and> rowCount s' = rowCount s \<and> handles_valid s'
           \<and> (tasks = pre @ t # post \<and> tracked_on s r t \<and> (\<forall>t' \<in> set post. \<not> tracked_on s r t') \<longrightarrow>
                announced (length (signals s)) r s' \<and> row_progress s' r = percent_of t)
           \<and> (map_of (active_tasks s) ident = Some (Some (r, 0))
                \<and> (\<forall>t \<in> set tasks. \<not> tracked_on s r t) \<longrightarrow>
                announced (length (signals s)) r s' \<and> row_progress s' r = Some (- 1)
                \<and> data env (Some (r, 0)) Role_UpdatingPercentage s' = Some (QVariant_null, s'))"
    if hv: "handles_valid s" and conv: "\<forall>t \<in> set tasks. percent_of t \<noteq> None"
  proof -
    from TasksChanged_total [OF hv conv] obtain s' where
      res: "TasksChanged tasks s = Some s'" "active_tasks s' = active_tasks s"
        "rowCount s' = rowCount s" "handles_valid s'"
      by blast
    have present: "announced (length (signals s)) r s' \<and> row_progress s' r = percent_of t"
      if "tasks = pre @ t # post" "tracked_on s r t" "\<forall>t' \<in> set post. \<not> tracked_on s r t'"
      using TasksChanged_row_last [OF hv conv that] res(1) by auto
    have absent: "announced (length (signals s)) r s' \<and> row_progress s' r = Some (- 1)
                \<and> data env (Some (r, 0)) Role_UpdatingPercentage s' = Some (QVariant_null, s')"
      if "map_of (active_tasks s) ident = Some (Some (r, 0))" "\<forall>t \<in> set tasks. \<not> tracked_on s r t"
      using TasksChanged_row_none [OF hv that(1) conv that(2), of env] res(1) by auto
    show ?thesis
      using res present absent by (intro exI [of _ s'] conjI impI) blast+
  qed
  have c: "\<forall>t. progress_max t = 0 \<longrightarrow> percent_of t = Some 0"
    by (simp add: percent_of_def)
  have d: "\<forall>t. progress_max t = 10 \<longrightarrow>
         (progress t = 0 \<longrightarrow> percent_of t = Some 0)
         \<and> (progress t = 5 \<longrightarrow> percent_of t = Some 50)
         \<and> (progress t = 10 \<longrightarrow> percent_of t = Some 100)"
    by (simp add: percent_of_def percentage_examples)
  have e: "\<forall>t. progress_max t = 100 \<and> progress t = 53 \<longrightarrow> percent_of t = Some 52"
    by (simp add: percent_of_def percentage_truncated)
  have f: "\<forall>t. 0 \<le> progress t \<and> progress t \<le> progress_max t \<and> 0 < progress_max t \<longrightarrow>
         (\<exists>v. percent_of t = Some v
            \<and> \<lfloor>100 * of_int (progress t) / of_int (progress_max t) - (1 / 40000 :: rat)\<rfloor> \<le> v
            \<and> v \<le> \<lfloor>100 * of_int (progress t) / of_int (progress_max t) + (1 / 40000 :: rat)\<rfloor>)"
    using percentage_near by (simp add: percent_of_def)
  from a b c d e f show ?thesis by blast
qed

theorem task_progress_lifecycle_witness:
  "find_device (devices connected_ex) 2 0 = Some 0
   \<and> row_progress started_ex 0 = Some 0
   \<and> map_option (\<lambda>s. row_progress s 0) (run_snapshots [[task_ex 0]] started_ex) = Some (Some 0)
   \<and> map_option (\<lambda>s. row_progress s 0) (run_snapshots [[task_ex 0], [task_ex 5]] started_ex) = Some (Some 50)
   \<and> map_option (\<lambda>s. row_progress s 0)
        (run_snapshots [[task_ex 0], [task_ex 5], [task_ex 10]] started_ex) = Some (Some 100)
   \<and> map_option (\<lambda>s. row_progress s 0)
        (run_snapshots [[task_ex 0], [task_ex 5], [task_ex 10], []] started_ex) = Some (Some (- 1))
   \<and> map_option (\<lambda>s. row_progress s 0)
        (TasksChanged [\<lparr>task_id = 9, progress = 3, progress_max = 4\<rparr>, task_ex 5] two_tasks_ex)
       = Some (Some 50)
   \<and> map_option (\<lambda>s. row_progress s 0)
        (TasksChanged [task_ex 5, \<lparr>task_id = 9, progress = 3, progress_max = 4\<rparr>] two_tasks_ex)
       = Some (Some 75)"
proof -
  have f: "find_device (devices connected_ex) 2 0 = Some 0"
    by (simp add: ex_defs)
  from task_progress_lifecycle [where before = connected_ex and p = 2 and r = 0 and ident = 4] f
  have st: "map_of (active_tasks started_ex) 4 = Some (Some (0, 0))"
    "row_progress started_ex 0 = Some 0"
    unfolding started_ex_def by blast+
  have hv: "handles_valid started_ex"
    by (simp add: started_ex_value handles_valid_def valid_index_def rowCount_def ex_defs)
  have pc: "percent_of (task_ex 0) = Some 0" "percent_of (task_ex 5) = Some 50"
    "percent_of (task_ex 10) = Some 100"
    using task_progress_lifecycle [where before = connected_ex and p = 2 and r = 0 and ident = 4]
    by (simp_all add: task_ex_def)
  have present: "\<exists>s'. TasksChanged [task_ex k] s = Some s'
           \<and> active_tasks s' = active_tasks started_ex \<and> handles_valid s'
           \<and> row_progress s' 0 = percent_of (task_ex k)"
    if "handles_valid s" "active_tasks s = active_tasks started_ex"
       "percent_of (task_ex k) \<noteq> None" for s k
  proof -
    have "tracked_on s 0 (task_ex k)"
      using that(2) st(1) by (simp add: tracked_on_def task_ex_def)
    then show ?thesis
      using task_progress_lifecycle [where s = s and tasks = "[task_ex k]" and r = 0
          and pre = "[]" and t = "task_ex k" and post = "[]"] that
      by force
  qed
  have absent: "\<exists>s'. TasksChanged [] s = Some s' \<and> row_progress s' 0 = Some (- 1)"
    if "handles_valid s" "active_tasks s = active_tasks started_ex" for s
  proof -
    have "map_of (active_tasks s) 4 = Some (Some (0, 0))"
      using that(2) st(1) by simp
    then show ?thesis
      using task_progress_lifecycle [where s = s and tasks = "[]" and r = 0 and ident = 4] that
      by force
  qed
  from present [OF hv refl, of 0] pc obtain s2 where
    s2: "TasksChanged [task_ex 0] started_ex = Some s2" "active_tasks s2 = active_tasks started_ex"
        "handles_valid s2" "row_progress s2 0 = Some 0"
    by auto
  from present [OF s2(3,2), of 5] pc obtain s3 where
    s3: "TasksChanged [task_ex 5] s2 = Some s3" "active_tasks s3 = active_tasks started_ex"
        "handles_valid s3" "row_progress s3 0 = Some 50"
    by auto
  from present [OF s3(3,2), of 10] pc obtain s4 where
    s4: "TasksChanged [task_ex 10] s3 = Some s4" "active_tasks s4 = active_tasks started_ex"
        "handles_valid s4" "row_progress s4 0 = Some 100"
    by auto
  from absent [OF s4(3,2)] obtain s5 where
    s5: "TasksChanged [] s4 = Some s5" "row_progress s5 0 = Some (- 1)"
    by auto
  let ?t9 = "\<lparr>task_id = 9, progress = 3, progress_max = 4\<rparr>"
  have hv2: "handles_valid two_tasks_ex"
    by (simp add: two_tasks_ex_value handles_valid_def valid_index_def rowCount_def ex_defs)
  have tr: "tracked_on two_tasks_ex 0 (task_ex 5)" "tracked_on two_tasks_ex 0 ?t9"
    by (simp_all add: two_tasks_ex_value tracked_on_def task_ex_def ex_defs)
  have p9: "percent_of ?t9 = Some 75"
    by (simp add: percent_of_def percentage_truncated)
  from task_progress_lifecycle [where s = two_tasks_ex and tasks = "[?t9, task_ex 5]" and r = 0
      and pre = "[?t9]" and t = "task_ex 5" and post = "[]"] hv2 tr pc p9
  have c1: "map_option (\<lambda>s. row_progress s 0) (TasksChanged [?t9, task_ex 5] two_tasks_ex)
      = Some (Some 50)"
    by force
  from task_progress_lifecycle [where s = two_tasks_ex and tasks = "[task_ex 5, ?t9]" and r = 0
      and pre = "[task_ex 5]" and t = ?t9 and post = "[]"] hv2 tr pc p9
  have c2: "map_option (\<lambda>s. row_progress s 0) (TasksChanged [task_ex 5, ?t9] two_tasks_ex)
      = Some (Some 75)"
    by force
  show ?thesis
    using f st(2) s2 s3 s4 s5 c1 c2 by simp
qed

end
